theory Spec2Isabelle
  imports Main
begin

section \<open>Composed-tree tracking of \<open>TreeNode\<close>\<close>

text \<open>
  The class \<open>TreeNode\<close> keeps, for every element, the pointers that describe where the
  element renders in the flat (composed) tree, and it reacts to child, shadow-root and
  slot notifications of the host document. Objects are references; the fields of all
  objects live in one store, so that aliasing between a node, its distributed parent and
  the set held by that parent is visible.
\<close>

subsection \<open>The host document as the tracker reads it\<close>

type_synonym ref = nat

text \<open>What \<open>instanceof\<close> can tell about a DOM node.\<close>

datatype nodeKind =
    TreeNodeK       \<comment> \<open>an instance of \<open>TreeNode\<close> (hence an \<open>HTMLElement\<close>)\<close>
  | SlotK           \<comment> \<open>an \<open>HTMLSlotElement\<close>\<close>
  | HTMLElementK    \<comment> \<open>any other \<open>HTMLElement\<close>\<close>
  | ElementK        \<comment> \<open>an element that is not an \<open>HTMLElement\<close>\<close>
  | ShadowRootK     \<comment> \<open>a \<open>ShadowRoot\<close>\<close>
  | OtherK          \<comment> \<open>a document or a plain fragment\<close>

fun isTreeNode :: "nodeKind \<Rightarrow> bool" where
  "isTreeNode TreeNodeK = True"
| "isTreeNode _ = False"

fun isHTMLSlotElement :: "nodeKind \<Rightarrow> bool" where
  "isHTMLSlotElement SlotK = True"
| "isHTMLSlotElement _ = False"

fun isHTMLElement :: "nodeKind \<Rightarrow> bool" where
  "isHTMLElement TreeNodeK = True"
| "isHTMLElement SlotK = True"
| "isHTMLElement HTMLElementK = True"
| "isHTMLElement _ = False"

fun isElement :: "nodeKind \<Rightarrow> bool" where
  "isElement ShadowRootK = False"
| "isElement OtherK = False"
| "isElement _ = True"

fun isShadowRoot :: "nodeKind \<Rightarrow> bool" where
  "isShadowRoot ShadowRootK = True"
| "isShadowRoot _ = False"

text \<open>
  The document at the moment a method runs. The last three fields are the helpers that
  \<open>TreeNode\<close> imports from \<open>core/utils.js\<close> (\<open>isNode\<close>, \<open>isScene\<close>, \<open>hasShadow\<close>); they are
  parameters of the model. \<open>isSceneProp\<close> is the field \<open>this.isScene\<close>, and the two
  \<open>has...Callback\<close> fields say whether the optional life cycle methods exist on an object.
\<close>

record env =
  kind :: "ref \<Rightarrow> nodeKind"
  parentNode :: "ref \<Rightarrow> ref option"
  children :: "ref \<Rightarrow> ref list"
  host :: "ref \<Rightarrow> ref"
  assignedSlot :: "ref \<Rightarrow> ref option"
  assignedElements :: "ref \<Rightarrow> ref list"   \<comment> \<open>\<open>assignedElements({flatten: true})\<close>\<close>
  matchesDefined :: "ref \<Rightarrow> bool"           \<comment> \<open>\<open>matches(':defined')\<close>\<close>
  tagName :: "ref \<Rightarrow> string"
  isSceneProp :: "ref \<Rightarrow> bool"
  hasChildComposedCallback :: "ref \<Rightarrow> bool"
  hasChildUncomposedCallback :: "ref \<Rightarrow> bool"
  isNode :: "ref \<Rightarrow> bool"
  isScene :: "ref \<Rightarrow> bool"
  hasShadow :: "ref \<Rightarrow> bool"

text \<open>\<open>parentElement\<close> is the parent node when that node is an element, else null.\<close>

definition parentElement :: "env \<Rightarrow> ref \<Rightarrow> ref option" where
  "parentElement e n =
     (case parentNode e n of
        None \<Rightarrow> None
      | Some p \<Rightarrow> if isElement (kind e p) then Some p else None)"

subsection \<open>The store of tracker fields\<close>

datatype connectionType = Root | Slot | Actual

text \<open>A life cycle call: the object it is called on, the child, the connection type.\<close>

datatype event =
    ChildComposed ref ref connectionType
  | ChildUncomposed ref ref connectionType

datatype error = TypeError | DOMException

text \<open>
  A JavaScript \<open>Set\<close> iterates in insertion order, so \<open>__distributedChildren\<close> is a list
  without repetition, and \<open>None\<close> is \<open>undefined\<close>. \<open>p_prevAssignedNodes\<close> is the weak map of
  each tracker, from a slot to the elements last seen assigned to it. \<open>observers\<close> holds the
  calls of \<open>observeChildren\<close> (root, tracker, fourth argument), \<open>listeners\<close> the
  \<open>slotchange\<close> listeners (slot, tracker, capture), \<open>deferred\<close> the thunks handed to
  \<open>defer\<close> (tracker, slot), \<open>whenDefinedQueue\<close> the continuations waiting on
  \<open>customElements.whenDefined\<close> of a tag name, and \<open>fired\<close> the life cycle calls made so far,
  oldest first.
\<close>

record state =
  p_shadowRoot :: "ref \<Rightarrow> ref option"
  p_isPossiblyDistributedToShadowRoot :: "ref \<Rightarrow> bool"
  p_prevAssignedNodes :: "ref \<Rightarrow> ref \<Rightarrow> ref list option"
  p_distributedParent :: "ref \<Rightarrow> ref option"
  p_shadowRootParent :: "ref \<Rightarrow> ref option"
  p_distributedChildren :: "ref \<Rightarrow> ref list option"
  observers :: "(ref \<times> ref \<times> bool) list"
  listeners :: "(ref \<times> ref \<times> bool) list"
  deferred :: "(ref \<times> ref) list"
  whenDefinedQueue :: "(string \<times> event) list"
  fired :: "event list"

definition initial :: state where
  "initial = \<lparr> p_shadowRoot = (\<lambda>_. None),
               p_isPossiblyDistributedToShadowRoot = (\<lambda>_. False),
               p_prevAssignedNodes = (\<lambda>_ _. None),
               p_distributedParent = (\<lambda>_. None),
               p_shadowRootParent = (\<lambda>_. None),
               p_distributedChildren = (\<lambda>_. None),
               observers = [],
               listeners = [],
               deferred = [],
               whenDefinedQueue = [],
               fired = [] \<rparr>"

subsection \<open>Difference between the last and the current assignment of a slot\<close>

text \<open>\<open>xs.splice(i, 1)\<close>: drop the element at index \<open>i\<close>; nothing happens past the end.\<close>

definition splice1 :: "nat \<Rightarrow> 'a list \<Rightarrow> 'a list" where
  "splice1 i xs = take i xs @ drop (Suc i) xs"

text \<open>
  The loop of \<open>__getDistributedChildDifference\<close> over \<open>previousNodes\<close>, from index \<open>i\<close> on:
  \<open>newNodes\<close> (which is also \<open>diff.added\<close>) shrinks in place, \<open>removed\<close> grows.
\<close>

fun diffLoop :: "nat \<Rightarrow> ref list \<Rightarrow> ref list \<Rightarrow> ref list \<Rightarrow> ref list \<times> ref list" where
  "diffLoop i [] newNodes removed = (newNodes, removed)"
| "diffLoop i (oldNode # rest) newNodes removed =
     (if oldNode \<notin> set newNodes
      then diffLoop (Suc i) rest newNodes (removed @ [oldNode])
      else diffLoop (Suc i) rest (splice1 i newNodes) removed)"

text \<open>The list the resolver takes as the slot's current assignment.\<close>

definition resolveNewNodes :: "env \<Rightarrow> ref \<Rightarrow> ref \<Rightarrow> ref list" where
  "resolveNewNodes e this slot =
     (if \<not> isSceneProp e this \<and> assignedSlot e slot \<noteq> None then []
      else assignedElements e slot)"

text \<open>
  \<open>__getDistributedChildDifference\<close>: reads the snapshot (\<open>?? []\<close>), stores a copy of the new
  list as the next snapshot, and returns \<open>(added, removed)\<close> with the store.
\<close>

definition getDistributedChildDifference ::
    "env \<Rightarrow> ref \<Rightarrow> ref \<Rightarrow> state \<Rightarrow> (ref list \<times> ref list) \<times> state" where
  "getDistributedChildDifference e this slot s =
     (let previousNodes = (case p_prevAssignedNodes s this slot of None \<Rightarrow> [] | Some ns \<Rightarrow> ns);
          newNodes = resolveNewNodes e this slot;
          s' = s\<lparr> p_prevAssignedNodes :=
                    (p_prevAssignedNodes s)(this := (p_prevAssignedNodes s this)(slot \<mapsto> newNodes)) \<rparr>
      in (diffLoop 0 previousNodes newNodes [], s'))"

subsection \<open>Life cycle calls\<close>

text \<open>
  \<open>__triggerChildComposedCallback\<close>: nothing without the method; the call itself when the
  child matches \<open>:defined\<close>; else a continuation on \<open>whenDefined\<close> of the child's lower-cased
  tag name.
\<close>

definition triggerChildComposedCallback ::
    "env \<Rightarrow> ref \<Rightarrow> ref \<Rightarrow> connectionType \<Rightarrow> state \<Rightarrow> state" where
  "triggerChildComposedCallback e this child connType s =
     (if \<not> hasChildComposedCallback e this then s
      else if matchesDefined e child
      then s\<lparr> fired := fired s @ [ChildComposed this child connType] \<rparr>
      else s\<lparr> whenDefinedQueue :=
                 whenDefinedQueue s @ [(tagName e child, ChildComposed this child connType)] \<rparr>)"

text \<open>\<open>__triggerChildUncomposedCallback\<close>: the call, when the method exists.\<close>

definition triggerChildUncomposedCallback ::
    "env \<Rightarrow> ref \<Rightarrow> ref \<Rightarrow> connectionType \<Rightarrow> state \<Rightarrow> state" where
  "triggerChildUncomposedCallback e this child connType s =
     (if hasChildUncomposedCallback e this
      then s\<lparr> fired := fired s @ [ChildUncomposed this child connType] \<rparr>
      else s)"

text \<open>
  The registry resolves \<open>whenDefined tag\<close>: the continuations queued on that tag run, in the
  order they were queued.
\<close>

definition whenDefinedResolved :: "string \<Rightarrow> state \<Rightarrow> state" where
  "whenDefinedResolved tag s =
     s\<lparr> fired := fired s @ map snd (filter (\<lambda>q. fst q = tag) (whenDefinedQueue s)),
        whenDefinedQueue := filter (\<lambda>q. fst q \<noteq> tag) (whenDefinedQueue s) \<rparr>"

subsection \<open>Distribution changes\<close>

text \<open>\<open>Set.add\<close> and \<open>Set.delete\<close> on the insertion-ordered list.\<close>

definition setAdd :: "'a \<Rightarrow> 'a list \<Rightarrow> 'a list" where
  "setAdd x xs = (if x \<in> set xs then xs else xs @ [x])"

definition setDelete :: "'a \<Rightarrow> 'a list \<Rightarrow> 'a list" where
  "setDelete x xs = removeAll x xs"

text \<open>
  The block of the first loop that takes \<open>addedNode\<close> out of the set of the parent it was
  distributed to so far, and forgets the set when it becomes empty.
\<close>

definition leavePreviousParent :: "ref \<Rightarrow> state \<Rightarrow> state" where
  "leavePreviousParent addedNode s =
     (case p_distributedParent s addedNode of
        None \<Rightarrow> s
      | Some distributedParent \<Rightarrow>
          (case p_distributedChildren s distributedParent of
             None \<Rightarrow> s
           | Some distributedChildren \<Rightarrow>
               (let dc = setDelete addedNode distributedChildren
                in s\<lparr> p_distributedChildren := (p_distributedChildren s)
                         (distributedParent := if dc = [] then None else Some dc) \<rparr>)))"

text \<open>"The node is now distributed to \<open>this\<close> element."\<close>

definition joinThis :: "ref \<Rightarrow> ref \<Rightarrow> state \<Rightarrow> state" where
  "joinThis this addedNode s =
     (let members = (case p_distributedChildren s this of None \<Rightarrow> [] | Some dc \<Rightarrow> dc)
      in s\<lparr> p_distributedParent := (p_distributedParent s)(addedNode := Some this),
             p_distributedChildren := (p_distributedChildren s)
               (this := Some (setAdd addedNode members)) \<rparr>)"

fun addedLoop :: "env \<Rightarrow> ref \<Rightarrow> ref list \<Rightarrow> state \<Rightarrow> state" where
  "addedLoop e this [] s = s"
| "addedLoop e this (addedNode # rest) s =
     (if \<not> isTreeNode (kind e addedNode) then addedLoop e this rest s
      else addedLoop e this rest
             (triggerChildComposedCallback e this addedNode Slot
                (joinThis this addedNode (leavePreviousParent addedNode s))))"

text \<open>
  The second loop. \<open>this.__distributedChildren!.delete\<close> on \<open>undefined\<close> throws; the writes made
  before the throw stay.
\<close>

fun removedLoop :: "env \<Rightarrow> ref \<Rightarrow> ref list \<Rightarrow> state \<Rightarrow> state \<times> error option" where
  "removedLoop e this [] s = (s, None)"
| "removedLoop e this (removedNode # rest) s =
     (if \<not> isTreeNode (kind e removedNode) then removedLoop e this rest s
      else
        (let s1 = s\<lparr> p_distributedParent := (p_distributedParent s)(removedNode := None) \<rparr>
         in case p_distributedChildren s1 this of
              None \<Rightarrow> (s1, Some TypeError)
            | Some distributedChildren \<Rightarrow>
                (let dc = setDelete removedNode distributedChildren;
                     s2 = s1\<lparr> p_distributedChildren := (p_distributedChildren s1)
                                (this := if dc = [] then None else Some dc) \<rparr>
                 in removedLoop e this rest
                      (triggerChildUncomposedCallback e this removedNode Slot s2))))"

definition handleDistributedChildren ::
    "env \<Rightarrow> ref \<Rightarrow> ref \<Rightarrow> state \<Rightarrow> state \<times> error option" where
  "handleDistributedChildren e this slot s =
     (case getDistributedChildDifference e this slot s of
        ((added, removed), s1) \<Rightarrow> removedLoop e this removed (addedLoop e this added s1))"

subsection \<open>Notifications from the document\<close>

definition addListener :: "ref \<Rightarrow> ref \<Rightarrow> state \<Rightarrow> state" where
  "addListener slot this s = s\<lparr> listeners := setAdd (slot, this, False) (listeners s) \<rparr>"

text \<open>The removal asks for the capturing listener, as the source does.\<close>

definition removeListener :: "ref \<Rightarrow> ref \<Rightarrow> state \<Rightarrow> state" where
  "removeListener slot this s = s\<lparr> listeners := setDelete (slot, this, True) (listeners s) \<rparr>"

definition forgetSlot :: "ref \<Rightarrow> ref \<Rightarrow> state \<Rightarrow> state" where
  "forgetSlot this slot s =
     s\<lparr> p_prevAssignedNodes :=
          (p_prevAssignedNodes s)(this := (p_prevAssignedNodes s this)(slot := None)) \<rparr>"

definition shadowRootChildAdded :: "env \<Rightarrow> ref \<Rightarrow> ref \<Rightarrow> state \<Rightarrow> state \<times> error option" where
  "shadowRootChildAdded e this child s =
     (if isTreeNode (kind e child)
      then (triggerChildComposedCallback e this child Root
              (s\<lparr> p_shadowRootParent := (p_shadowRootParent s)(child := Some this) \<rparr>), None)
      else if isHTMLSlotElement (kind e child)
      then handleDistributedChildren e this child (addListener child this s)
      else (s, None))"

definition shadowRootChildRemoved :: "env \<Rightarrow> ref \<Rightarrow> ref \<Rightarrow> state \<Rightarrow> state \<times> error option" where
  "shadowRootChildRemoved e this child s =
     (if isTreeNode (kind e child)
      then (triggerChildUncomposedCallback e this child Root
              (s\<lparr> p_shadowRootParent := (p_shadowRootParent s)(child := None) \<rparr>), None)
      else if isHTMLSlotElement (kind e child)
      then (case handleDistributedChildren e this child (removeListener child this s) of
              (s1, Some err) \<Rightarrow> (s1, Some err)
            | (s1, None) \<Rightarrow> (forgetSlot this child s1, None))
      else (s, None))"

definition childConnectedCallback :: "env \<Rightarrow> ref \<Rightarrow> ref \<Rightarrow> state \<Rightarrow> state" where
  "childConnectedCallback e this child s =
     (if isNode e child
      then (if \<not> isSceneProp e this \<and> p_shadowRoot s this \<noteq> None
            then s\<lparr> p_isPossiblyDistributedToShadowRoot :=
                       (p_isPossiblyDistributedToShadowRoot s)(child := True) \<rparr>
            else triggerChildComposedCallback e this child Actual s)
      else if isHTMLSlotElement (kind e child)
      then (addListener child this s)\<lparr> deferred := deferred s @ [(this, child)] \<rparr>
      else s)"

definition childDisconnectedCallback ::
    "env \<Rightarrow> ref \<Rightarrow> ref \<Rightarrow> state \<Rightarrow> state \<times> error option" where
  "childDisconnectedCallback e this child s =
     (if isNode e child
      then (if \<not> isSceneProp e this \<and> p_shadowRoot s this \<noteq> None
            then (s\<lparr> p_isPossiblyDistributedToShadowRoot :=
                        (p_isPossiblyDistributedToShadowRoot s)(child := False) \<rparr>, None)
            else (triggerChildUncomposedCallback e this child Actual s, None))
      else if isHTMLSlotElement (kind e child)
      then (case handleDistributedChildren e this child (removeListener child this s) of
              (s1, Some err) \<Rightarrow> (s1, Some err)
            | (s1, None) \<Rightarrow> (forgetSlot this child s1, None))
      else (s, None))"

text \<open>The loop of \<open>attachShadow\<close> over the children the element has at that moment.\<close>

fun uncomposeChildren :: "env \<Rightarrow> ref \<Rightarrow> ref list \<Rightarrow> state \<Rightarrow> state" where
  "uncomposeChildren e this [] s = s"
| "uncomposeChildren e this (child # rest) s =
     (if \<not> isTreeNode (kind e child) then uncomposeChildren e this rest s
      else uncomposeChildren e this rest
             (triggerChildUncomposedCallback e this child Actual
                (s\<lparr> p_isPossiblyDistributedToShadowRoot :=
                       (p_isPossiblyDistributedToShadowRoot s)(child := True) \<rparr>)))"

text \<open>
  \<open>attachShadow\<close>; \<open>super_result\<close> is what \<open>super.attachShadow(options)\<close> gave, a root or an
  exception of the platform, which propagates.
\<close>

definition attachShadow :: "env \<Rightarrow> ref \<Rightarrow> error + ref \<Rightarrow> state \<Rightarrow> state \<times> (error + ref)" where
  "attachShadow e this super_result s =
     (case super_result of
        Inl err \<Rightarrow> (s, Inl err)
      | Inr root \<Rightarrow>
          if isSceneProp e this then (s, Inr root)
          else
            (let s1 = s\<lparr> p_shadowRoot := (p_shadowRoot s)(this := Some root) \<rparr>;
                 s2 = s1\<lparr> observers := observers s1 @ [(root, this, True)] \<rparr>
             in (uncomposeChildren e this (children e this) s2, Inr root)))"

subsection \<open>Queries on the composed tree\<close>

text \<open>
  Where a slot sits: the host when the slot's parent node is a shadow root, else the slot's
  parent element. Both branches of \<open>_composedParent\<close> that go through a slot end this way.
\<close>

definition slotOwner :: "env \<Rightarrow> ref \<Rightarrow> ref option" where
  "slotOwner e slot =
     (case parentNode e slot of
        None \<Rightarrow> parentElement e slot
      | Some slotParent \<Rightarrow>
          if isShadowRoot (kind e slotParent) then Some (host e slotParent)
          else parentElement e slot)"

text \<open>The part of \<open>_composedParent\<close> that reads \<open>parentNode\<close>, after both pointers were null.\<close>

definition composedParentOfStructure :: "env \<Rightarrow> ref \<Rightarrow> ref option" where
  "composedParentOfStructure e this =
     (case parentNode e this of
        None \<Rightarrow> None
      | Some parent \<Rightarrow>
          if isHTMLSlotElement (kind e parent)
          then (if assignedElements e parent \<noteq> [] then None else slotOwner e parent)
          else if isShadowRoot (kind e parent) then Some (host e parent)
          else if isHTMLElement (kind e parent)
          then (if \<not> hasShadow e parent then Some parent
                else (case assignedSlot e this of
                        None \<Rightarrow> None
                      | Some slot \<Rightarrow> slotOwner e slot))
          else None)"

definition composedParent :: "env \<Rightarrow> state \<Rightarrow> ref \<Rightarrow> ref option" where
  "composedParent e s this =
     (let parent = parentElement e this
      in if (case parent of None \<Rightarrow> False | Some p \<Rightarrow> isScene e p) then parent
         else (case p_distributedParent s this of
                 Some p \<Rightarrow> Some p
               | None \<Rightarrow>
                   (case p_shadowRootParent s this of
                      Some p \<Rightarrow> Some p
                    | None \<Rightarrow> composedParentOfStructure e this)))"

definition shadowRootChildren :: "env \<Rightarrow> state \<Rightarrow> ref \<Rightarrow> ref list" where
  "shadowRootChildren e s this =
     (case p_shadowRoot s this of
        None \<Rightarrow> []
      | Some root \<Rightarrow> filter (\<lambda>n. isTreeNode (kind e n)) (children e root))"

text \<open>The two nested loops of \<open>_distributedShadowRootChildren\<close>, pushing onto \<open>result\<close>.\<close>

fun pushDistributed :: "env \<Rightarrow> ref list \<Rightarrow> ref list \<Rightarrow> ref list" where
  "pushDistributed e [] result = result"
| "pushDistributed e (distributed # rest) result =
     pushDistributed e rest (if isNode e distributed then result @ [distributed] else result)"

fun overRootChildren :: "env \<Rightarrow> ref list \<Rightarrow> ref list \<Rightarrow> ref list" where
  "overRootChildren e [] result = result"
| "overRootChildren e (child # rest) result =
     overRootChildren e rest
       (if isHTMLSlotElement (kind e child) \<and> assignedSlot e child = None
        then pushDistributed e (assignedElements e child) result
        else result)"

definition distributedShadowRootChildren :: "env \<Rightarrow> state \<Rightarrow> ref \<Rightarrow> ref list" where
  "distributedShadowRootChildren e s this =
     overRootChildren e (case p_shadowRoot s this of None \<Rightarrow> [] | Some root \<Rightarrow> children e root) []"

definition composedChildren :: "env \<Rightarrow> state \<Rightarrow> ref \<Rightarrow> ref list" where
  "composedChildren e s this =
     (if \<not> isSceneProp e this \<and> p_shadowRoot s this \<noteq> None
      then distributedShadowRootChildren e s this @ shadowRootChildren e s this
      else (case p_distributedChildren s this of None \<Rightarrow> [] | Some dc \<Rightarrow> dc)
           @ filter (\<lambda>n. isTreeNode (kind e n)) (children e this))"

subsection \<open>Tracked mutations\<close>

text \<open>
  What can reach a tracker: the overridden \<open>attachShadow\<close>, the child callbacks, the two
  observer callbacks of a shadow root, a \<open>slotchange\<close> event on a slot, the oldest thunk
  handed to \<open>defer\<close>, and the resolution of \<open>whenDefined\<close> for a tag.
\<close>

datatype step =
    AttachShadow ref "error + ref"
  | ChildConnected ref ref
  | ChildDisconnected ref ref
  | ShadowRootChildAdded ref ref
  | ShadowRootChildRemoved ref ref
  | SlotChange ref ref
  | RunDeferred
  | WhenDefinedResolved string

text \<open>The store a step leaves behind, also when the step ended by an exception.\<close>

fun exec :: "env \<Rightarrow> step \<Rightarrow> state \<Rightarrow> state" where
  "exec e (AttachShadow this r) s = fst (attachShadow e this r s)"
| "exec e (ChildConnected this child) s = childConnectedCallback e this child s"
| "exec e (ChildDisconnected this child) s = fst (childDisconnectedCallback e this child s)"
| "exec e (ShadowRootChildAdded this child) s = fst (shadowRootChildAdded e this child s)"
| "exec e (ShadowRootChildRemoved this child) s = fst (shadowRootChildRemoved e this child s)"
| "exec e (SlotChange this slot) s = fst (handleDistributedChildren e this slot s)"
| "exec e RunDeferred s =
     (case deferred s of
        [] \<Rightarrow> s
      | (this, slot) # rest \<Rightarrow> fst (handleDistributedChildren e this slot (s\<lparr> deferred := rest \<rparr>)))"
| "exec e (WhenDefinedResolved tag) s = whenDefinedResolved tag s"

text \<open>
  A step can happen only where the source has wired it: the observer callbacks after
  \<open>attachShadow\<close> registered the observer of that tracker, a \<open>slotchange\<close> on a slot the
  tracker listens to.
\<close>

fun enabled :: "env \<Rightarrow> step \<Rightarrow> state \<Rightarrow> bool" where
  "enabled e (ShadowRootChildAdded this child) s = (this \<in> set (map (\<lambda>ob. fst (snd ob)) (observers s)))"
| "enabled e (ShadowRootChildRemoved this child) s = (this \<in> set (map (\<lambda>ob. fst (snd ob)) (observers s)))"
| "enabled e (SlotChange this slot) s = ((slot, this, False) \<in> set (listeners s))"
| "enabled e _ s = True"

text \<open>Steps in a row, each in the document of its moment.\<close>

fun run :: "(env \<times> step) list \<Rightarrow> state \<Rightarrow> state" where
  "run [] s = s"
| "run ((e, st) # rest) s = run rest (exec e st s)"

text \<open>
  The call of \<open>__handleDistributedChildren\<close> a step makes, as (tracker, slot), if it makes
  one.
\<close>

fun distributionOf :: "env \<Rightarrow> step \<Rightarrow> state \<Rightarrow> (ref \<times> ref) option" where
  "distributionOf e (SlotChange this slot) s = Some (this, slot)"
| "distributionOf e (ShadowRootChildAdded this child) s =
     (if \<not> isTreeNode (kind e child) \<and> isHTMLSlotElement (kind e child)
      then Some (this, child) else None)"
| "distributionOf e (ShadowRootChildRemoved this child) s =
     (if \<not> isTreeNode (kind e child) \<and> isHTMLSlotElement (kind e child)
      then Some (this, child) else None)"
| "distributionOf e (ChildDisconnected this child) s =
     (if \<not> isNode e child \<and> isHTMLSlotElement (kind e child)
      then Some (this, child) else None)"
| "distributionOf e RunDeferred s = (case deferred s of [] \<Rightarrow> None | d # _ \<Rightarrow> Some d)"
| "distributionOf e _ s = None"

section \<open>Vocabulary of the properties\<close>



text \<open>The node's parent element is a scene, by the helper \<open>isScene\<close>.\<close>

definition underScene :: "env \<Rightarrow> ref \<Rightarrow> bool" where
  "underScene e n = (case parentElement e n of None \<Rightarrow> False | Some p \<Rightarrow> isScene e p)"

text \<open>At most one of the two composition pointers of \<open>n\<close> is set.\<close>

definition exclusiveAt :: "state \<Rightarrow> ref \<Rightarrow> bool" where
  "exclusiveAt s n \<longleftrightarrow> p_distributedParent s n = None \<or> p_shadowRootParent s n = None"

text \<open>\<open>x\<close> is in the set of distributed children of \<open>b\<close> exactly when \<open>x\<close> points to \<open>b\<close>.\<close>

definition edgeConsistentAt :: "state \<Rightarrow> ref \<Rightarrow> ref \<Rightarrow> bool" where
  "edgeConsistentAt s b x \<longleftrightarrow>
     (x \<in> set (case p_distributedChildren s b of None \<Rightarrow> [] | Some dc \<Rightarrow> dc))
       = (p_distributedParent s x = Some b)"

text \<open>
  The stores that sequences of tracked mutations reach from the initial one, each step
  wired (\<open>enabled\<close>) and allowed by a condition \<open>G\<close> on what the document delivers.
\<close>

inductive reachable :: "(env \<Rightarrow> step \<Rightarrow> state \<Rightarrow> bool) \<Rightarrow> state \<Rightarrow> bool"
  for G :: "env \<Rightarrow> step \<Rightarrow> state \<Rightarrow> bool" where
  start: "reachable G initial"
| step: "reachable G s \<Longrightarrow> enabled e st s \<Longrightarrow> G e st s \<Longrightarrow> reachable G (exec e st s)"

text \<open>No condition at all.\<close>

definition anyDelivery :: "env \<Rightarrow> step \<Rightarrow> state \<Rightarrow> bool" where
  "anyDelivery e st s = True"

text \<open>A sequence of steps, each wired and allowed where it happens.\<close>

fun admissible :: "(env \<Rightarrow> step \<Rightarrow> state \<Rightarrow> bool) \<Rightarrow> (env \<times> step) list \<Rightarrow> state \<Rightarrow> bool" where
  "admissible G [] s = True"
| "admissible G ((e, st) # rest) s =
     (enabled e st s \<and> G e st s \<and> admissible G rest (exec e st s))"




text \<open>Between two stores only calls in \<open>F\<close> were made and only entries in \<open>Q\<close> queued.\<close>

definition grows :: "(event \<Rightarrow> bool) \<Rightarrow> (string \<times> event \<Rightarrow> bool) \<Rightarrow> state \<Rightarrow> state \<Rightarrow> bool" where
  "grows F Q s s' \<longleftrightarrow>
     (\<exists>xs ys. fired s' = fired s @ xs \<and> whenDefinedQueue s' = whenDefinedQueue s @ ys
              \<and> list_all F xs \<and> list_all Q ys)"

text \<open>
  What the document has delivered so far, kept apart from the tracker: for every node the
  last report of a shadow-root observer about it (added to the root of some element, or
  removed), for every tracker and slot the list last resolved for that slot, the pairs
  for which a list was resolved, and the resolutions handed to \<open>defer\<close> that have not run.
\<close>

record ledger =
  rootOf :: "ref \<Rightarrow> ref option"
  resolved :: "ref \<times> ref \<Rightarrow> ref list"
  slotsSeen :: "(ref \<times> ref) list"
  pending :: "(ref \<times> ref) list"

definition blank :: ledger where
  "blank = \<lparr> rootOf = (\<lambda>_. None), resolved = (\<lambda>_. []), slotsSeen = [], pending = [] \<rparr>"

text \<open>The slot a step resolves, read off the step and the pending resolutions alone.\<close>

fun resolution :: "env \<Rightarrow> step \<Rightarrow> (ref \<times> ref) list \<Rightarrow> (ref \<times> ref) option" where
  "resolution e (SlotChange this slot) pend = Some (this, slot)"
| "resolution e (ShadowRootChildAdded this child) pend =
     (if \<not> isTreeNode (kind e child) \<and> isHTMLSlotElement (kind e child)
      then Some (this, child) else None)"
| "resolution e (ShadowRootChildRemoved this child) pend =
     (if \<not> isTreeNode (kind e child) \<and> isHTMLSlotElement (kind e child)
      then Some (this, child) else None)"
| "resolution e (ChildDisconnected this child) pend =
     (if \<not> isNode e child \<and> isHTMLSlotElement (kind e child)
      then Some (this, child) else None)"
| "resolution e RunDeferred pend = (case pend of [] \<Rightarrow> None | d # _ \<Rightarrow> Some d)"
| "resolution e _ pend = None"

text \<open>The reports of the shadow-root observers and the hand-over to \<open>defer\<close>.\<close>

fun reported :: "env \<Rightarrow> step \<Rightarrow> ledger \<Rightarrow> ledger" where
  "reported e (ShadowRootChildAdded this child) l =
     (if isTreeNode (kind e child) then l\<lparr> rootOf := (rootOf l)(child := Some this) \<rparr> else l)"
| "reported e (ShadowRootChildRemoved this child) l =
     (if isTreeNode (kind e child) then l\<lparr> rootOf := (rootOf l)(child := None) \<rparr> else l)"
| "reported e (ChildConnected this child) l =
     (if \<not> isNode e child \<and> isHTMLSlotElement (kind e child)
      then l\<lparr> pending := pending l @ [(this, child)] \<rparr> else l)"
| "reported e RunDeferred l = l\<lparr> pending := drop 1 (pending l) \<rparr>"
| "reported e _ l = l"

definition booked :: "env \<Rightarrow> step \<Rightarrow> ledger \<Rightarrow> ledger" where
  "booked e st l =
     (case resolution e st (pending l) of
        None \<Rightarrow> reported e st l
      | Some (this, slot) \<Rightarrow>
          (reported e st l)\<lparr> resolved := (resolved l)((this, slot) := resolveNewNodes e this slot),
                              slotsSeen := (this, slot) # slotsSeen l \<rparr>)"

fun entries :: "(env \<times> step) list \<Rightarrow> ledger \<Rightarrow> ledger" where
  "entries [] l = l"
| "entries ((e, st) # rest) l = entries rest (booked e st l)"

text \<open>\<open>n\<close> is in the list last resolved for some slot of \<open>p\<close>; for some slot of anyone.\<close>

definition heldBy :: "ledger \<Rightarrow> ref \<Rightarrow> ref \<Rightarrow> bool" where
  "heldBy l p n = list_ex (\<lambda>k. fst k = p \<and> n \<in> set (resolved l k)) (slotsSeen l)"

definition held :: "ledger \<Rightarrow> ref \<Rightarrow> bool" where
  "held l n = list_ex (\<lambda>k. n \<in> set (resolved l k)) (slotsSeen l)"

text \<open>
  What is asked of the document at a step: elements keep their class (\<open>instanceof\<close> gives
  the same answers \<open>K\<close> throughout), and a slot that is reported as removed has no assigned
  elements at that moment.
\<close>

fun documentLike :: "(ref \<Rightarrow> nodeKind) \<Rightarrow> env \<Rightarrow> step \<Rightarrow> bool" where
  "documentLike K e (ChildDisconnected this child) =
     (kind e = K \<and> (isNode e child \<or> \<not> isHTMLSlotElement (kind e child)
                     \<or> resolveNewNodes e this child = []))"
| "documentLike K e (ShadowRootChildRemoved this child) =
     (kind e = K \<and> (\<not> isHTMLSlotElement (kind e child) \<or> resolveNewNodes e this child = []))"
| "documentLike K e _ = (kind e = K)"

definition orderly :: "(ref \<Rightarrow> nodeKind) \<Rightarrow> (env \<times> step) list \<Rightarrow> bool" where
  "orderly K tr = list_all (\<lambda>x. documentLike K (fst x) (snd x)) tr"

text \<open>The set of distributed children of \<open>p\<close>, empty when the field is \<open>undefined\<close>.\<close>

definition members :: "state \<Rightarrow> ref \<Rightarrow> ref list" where
  "members s p = (case p_distributedChildren s p of None \<Rightarrow> [] | Some dc \<Rightarrow> dc)"

text \<open>
  Every node with a distributed parent \<open>p\<close> is a tree node, is in the set of \<open>p\<close>, and is in
  the list \<open>R\<close> gives for some slot of \<open>p\<close>.
\<close>

definition tracked :: "(ref \<Rightarrow> nodeKind) \<Rightarrow> state \<Rightarrow> (ref \<times> ref \<Rightarrow> ref list) \<Rightarrow> bool" where
  "tracked K s R \<longleftrightarrow>
     (\<forall>x p. p_distributedParent s x = Some p \<longrightarrow>
        isTreeNode (K x) \<and> x \<in> set (members s p) \<and> (\<exists>sl. x \<in> set (R (p, sl))))"

text \<open>The store agrees with the ledger.\<close>

definition agrees :: "(ref \<Rightarrow> nodeKind) \<Rightarrow> state \<Rightarrow> ledger \<Rightarrow> bool" where
  "agrees K s l \<longleftrightarrow>
     deferred s = pending l
     \<and> (\<forall>p sl. (case p_prevAssignedNodes s p sl of None \<Rightarrow> [] | Some ns \<Rightarrow> ns) = resolved l (p, sl))
     \<and> tracked K s (resolved l)
     \<and> (\<forall>n h. p_shadowRootParent s n = Some h \<longrightarrow> rootOf l n = Some h)
     \<and> (\<forall>k. resolved l k \<noteq> [] \<longrightarrow> k \<in> set (slotsSeen l))"

text \<open>A node that points to a parent is in the set of that parent.\<close>

definition pointed :: "state \<Rightarrow> bool" where
  "pointed s \<longleftrightarrow> (\<forall>x p. p_distributedParent s x = Some p \<longrightarrow> x \<in> set (members s p))"

section \<open>Documents used as concrete inputs\<close>

text \<open>
  A document with nothing in it: every reference is a plain node without parent, every
  object has both life cycle methods, every element is upgraded. The inputs below change
  the fields they need. Throughout, \<open>1\<close>, \<open>2\<close> and \<open>3\<close> are tracking elements, \<open>11\<close> and \<open>12\<close>
  are slots, \<open>21\<close> and \<open>23\<close> are shadow roots, \<open>30\<close> is a scene, and \<open>5\<close> to \<open>8\<close> are the
  elements that get distributed.
\<close>

definition document :: env where
  "document = \<lparr> kind = (\<lambda>_. OtherK), parentNode = (\<lambda>_. None), children = (\<lambda>_. []),
                host = (\<lambda>n. n), assignedSlot = (\<lambda>_. None), assignedElements = (\<lambda>_. []),
                matchesDefined = (\<lambda>_. True), tagName = (\<lambda>_. ''lume-node''),
                isSceneProp = (\<lambda>_. False), hasChildComposedCallback = (\<lambda>_. True),
                hasChildUncomposedCallback = (\<lambda>_. True), isNode = (\<lambda>_. False),
                isScene = (\<lambda>_. False), hasShadow = (\<lambda>_. False) \<rparr>"

text \<open>Slot \<open>11\<close> holds \<open>[5, 6, 7]\<close>, and later \<open>[6, 7, 8]\<close>.\<close>

definition docABC :: env where
  "docABC = document\<lparr> assignedElements := (\<lambda>n. if n = 11 then [5, 6, 7] else []) \<rparr>"

definition docBCD :: env where
  "docBCD = document\<lparr> assignedElements := (\<lambda>n. if n = 11 then [6, 7, 8] else []) \<rparr>"

text \<open>Slot \<open>11\<close> still holds \<open>[5, 6, 7]\<close> and is itself assigned to slot \<open>12\<close>.\<close>

definition docReslotted :: env where
  "docReslotted = docABC\<lparr> assignedSlot := (\<lambda>n. if n = 11 then Some 12 else None) \<rparr>"

text \<open>The same, seen from the scene \<open>30\<close>.\<close>

definition docSceneSlot :: env where
  "docSceneSlot = docReslotted\<lparr> isSceneProp := (\<lambda>n. n = 30) \<rparr>"

text \<open>
  The cast: tree nodes, two slots, two shadow roots with their hosts, a scene. The helper
  \<open>isNode\<close> accepts the tree nodes other than the scene; the helper \<open>isScene\<close> and the field
  \<open>isScene\<close> agree on \<open>30\<close>.
\<close>

definition stage :: env where
  "stage = document\<lparr>
     kind := (\<lambda>n. if n \<in> {1, 2, 3, 5, 6, 7, 8, 30} then TreeNodeK
                   else if n \<in> {11, 12} then SlotK
                   else if n \<in> {21, 23} then ShadowRootK else OtherK),
     host := (\<lambda>n. if n = 21 then 1 else if n = 23 then 3 else n),
     isNode := (\<lambda>n. n \<in> {1, 2, 3, 5, 6, 7, 8}),
     isScene := (\<lambda>n. n = 30),
     isSceneProp := (\<lambda>n. n = 30) \<rparr>"

text \<open>
  Re-slotting. Slot \<open>11\<close> is a child of element \<open>1\<close>, slot \<open>12\<close> a child of element \<open>2\<close>. At
  first \<open>5\<close> is assigned to \<open>11\<close>; then its assignment moves to \<open>12\<close>.
\<close>

definition docBefore :: env where
  "docBefore = stage\<lparr> assignedElements := (\<lambda>n. if n = 11 then [5] else []) \<rparr>"

definition docAfter :: env where
  "docAfter = stage\<lparr> assignedElements := (\<lambda>n. if n = 12 then [5] else []) \<rparr>"

text \<open>Both slots are connected and resolved once: \<open>5\<close> is distributed to \<open>1\<close>.\<close>

definition settle :: "env \<Rightarrow> (env \<times> step) list" where
  "settle e = [(e, ChildConnected 1 11), (e, ChildConnected 2 12), (e, RunDeferred), (e, RunDeferred)]"

text \<open>The \<open>slotchange\<close> of the slot that gains \<open>5\<close> arrives before that of the slot that loses it.\<close>

definition gainThenLose :: "env \<Rightarrow> (env \<times> step) list" where
  "gainThenLose e = [(e, SlotChange 2 12), (e, SlotChange 1 11)]"

text \<open>The same move while \<open>6\<close> stays assigned to slot \<open>11\<close>.\<close>

definition docBeforeTwo :: env where
  "docBeforeTwo = stage\<lparr> assignedElements := (\<lambda>n. if n = 11 then [5, 6] else []) \<rparr>"

definition docAfterTwo :: env where
  "docAfterTwo = stage\<lparr> assignedElements :=
     (\<lambda>n. if n = 11 then [6] else if n = 12 then [5] else []) \<rparr>"

text \<open>
  Element \<open>1\<close> has the shadow root \<open>21\<close> with the slot \<open>11\<close> in it, and \<open>5\<close>, a child of \<open>1\<close>,
  is assigned to that slot. Element \<open>3\<close> has the shadow root \<open>23\<close>. Then \<open>5\<close> is moved into
  \<open>23\<close>; the observer of \<open>23\<close> reports it before the \<open>slotchange\<close> of \<open>11\<close> is dispatched.
\<close>

definition docSlotted :: env where
  "docSlotted = stage\<lparr>
     parentNode := (\<lambda>n. if n = 5 then Some 1 else if n = 11 then Some 21 else None),
     children := (\<lambda>n. if n = 1 then [5] else if n = 21 then [11] else []),
     assignedSlot := (\<lambda>n. if n = 5 then Some 11 else None),
     assignedElements := (\<lambda>n. if n = 11 then [5] else []),
     hasShadow := (\<lambda>n. n = 1 \<or> n = 3) \<rparr>"

definition docMoved :: env where
  "docMoved = stage\<lparr>
     parentNode := (\<lambda>n. if n = 5 then Some 23 else if n = 11 then Some 21 else None),
     children := (\<lambda>n. if n = 23 then [5] else if n = 21 then [11] else []),
     hasShadow := (\<lambda>n. n = 1 \<or> n = 3) \<rparr>"

text \<open>The moment between: \<open>5\<close> is taken out of \<open>1\<close> and not yet anywhere else.\<close>

definition docDetached :: env where
  "docDetached = stage\<lparr>
     parentNode := (\<lambda>n. if n = 11 then Some 21 else None),
     children := (\<lambda>n. if n = 21 then [11] else []),
     hasShadow := (\<lambda>n. n = 1 \<or> n = 3) \<rparr>"

definition slotThenRoot :: "(env \<times> step) list" where
  "slotThenRoot =
     [(docSlotted, ChildConnected 1 5), (docSlotted, AttachShadow 1 (Inr 21)),
      (docSlotted, ShadowRootChildAdded 1 11), (docSlotted, AttachShadow 3 (Inr 23)),
      (docMoved, ChildDisconnected 1 5), (docMoved, ShadowRootChildAdded 3 5)]"

text \<open>
  The orderly version: \<open>5\<close> is first removed, the slot lets go of it, and only then it is
  appended to the shadow root \<open>23\<close>.
\<close>

definition slotReleaseThenRoot :: "(env \<times> step) list" where
  "slotReleaseThenRoot =
     [(docSlotted, ChildConnected 1 5), (docSlotted, AttachShadow 1 (Inr 21)),
      (docSlotted, ShadowRootChildAdded 1 11), (docSlotted, AttachShadow 3 (Inr 23)),
      (docDetached, ChildDisconnected 1 5), (docDetached, SlotChange 1 11),
      (docMoved, ShadowRootChildAdded 3 5)]"

text \<open>\<open>5\<close> is distributed to \<open>1\<close> and then appended to the scene \<open>30\<close>.\<close>

definition docInScene :: env where
  "docInScene = stage\<lparr> parentNode := (\<lambda>n. if n = 5 then Some 30 else None),
                        children := (\<lambda>n. if n = 30 then [5] else []) \<rparr>"

text \<open>
  Default content. \<open>6\<close> is a child of slot \<open>11\<close>. In the first document the slot is an
  ordinary child of element \<open>1\<close>, outside any shadow tree, where a slot has no assigned
  elements. In the second the slot sits in the shadow root \<open>21\<close> of element \<open>1\<close> and nothing is
  assigned to it; there its flattened assigned elements are its own children.
\<close>

definition docLightSlot :: env where
  "docLightSlot = stage\<lparr>
     parentNode := (\<lambda>n. if n = 6 then Some 11 else if n = 11 then Some 1 else None),
     children := (\<lambda>n. if n = 11 then [6] else if n = 1 then [11] else []) \<rparr>"

definition docFallback :: env where
  "docFallback = stage\<lparr>
     parentNode := (\<lambda>n. if n = 6 then Some 11 else if n = 11 then Some 21 else None),
     children := (\<lambda>n. if n = 11 then [6] else if n = 21 then [11] else []),
     assignedElements := (\<lambda>n. if n = 11 then [6] else []),
     hasShadow := (\<lambda>n. n = 1) \<rparr>"


section \<open>Properties\<close>

subsection \<open>Kinds of nodes\<close>

lemma isShadowRoot_iff: "isShadowRoot k \<longleftrightarrow> k = ShadowRootK"
  by (cases k) simp_all

lemma isHTMLSlotElement_iff: "isHTMLSlotElement k \<longleftrightarrow> k = SlotK"
  by (cases k) simp_all

lemma isHTMLElement_iff: "isHTMLElement k \<longleftrightarrow> k = TreeNodeK \<or> k = SlotK \<or> k = HTMLElementK"
  by (cases k) simp_all

lemma isElement_iff: "isElement k \<longleftrightarrow> k \<noteq> ShadowRootK \<and> k \<noteq> OtherK"
  by (cases k) simp_all

lemma isTreeNode_iff: "isTreeNode k \<longleftrightarrow> k = TreeNodeK"
  by (cases k) simp_all

lemmas kind_iffs = isShadowRoot_iff isHTMLSlotElement_iff isHTMLElement_iff isElement_iff

subsection \<open>What the life cycle calls leave alone\<close>

lemma uncomposed_frame [simp]:
  "p_shadowRoot (triggerChildUncomposedCallback e this c ct s) = p_shadowRoot s"
  "p_isPossiblyDistributedToShadowRoot (triggerChildUncomposedCallback e this c ct s)
     = p_isPossiblyDistributedToShadowRoot s"
  "p_prevAssignedNodes (triggerChildUncomposedCallback e this c ct s) = p_prevAssignedNodes s"
  "p_distributedParent (triggerChildUncomposedCallback e this c ct s) = p_distributedParent s"
  "p_shadowRootParent (triggerChildUncomposedCallback e this c ct s) = p_shadowRootParent s"
  "p_distributedChildren (triggerChildUncomposedCallback e this c ct s) = p_distributedChildren s"
  "observers (triggerChildUncomposedCallback e this c ct s) = observers s"
  "listeners (triggerChildUncomposedCallback e this c ct s) = listeners s"
  "deferred (triggerChildUncomposedCallback e this c ct s) = deferred s"
  "whenDefinedQueue (triggerChildUncomposedCallback e this c ct s) = whenDefinedQueue s"
  by (simp_all add: triggerChildUncomposedCallback_def)

lemma composed_frame [simp]:
  "p_shadowRoot (triggerChildComposedCallback e this c ct s) = p_shadowRoot s"
  "p_isPossiblyDistributedToShadowRoot (triggerChildComposedCallback e this c ct s)
     = p_isPossiblyDistributedToShadowRoot s"
  "p_prevAssignedNodes (triggerChildComposedCallback e this c ct s) = p_prevAssignedNodes s"
  "p_distributedParent (triggerChildComposedCallback e this c ct s) = p_distributedParent s"
  "p_shadowRootParent (triggerChildComposedCallback e this c ct s) = p_shadowRootParent s"
  "p_distributedChildren (triggerChildComposedCallback e this c ct s) = p_distributedChildren s"
  "observers (triggerChildComposedCallback e this c ct s) = observers s"
  "listeners (triggerChildComposedCallback e this c ct s) = listeners s"
  "deferred (triggerChildComposedCallback e this c ct s) = deferred s"
  by (simp_all add: triggerChildComposedCallback_def)

lemma uncomposed_fired:
  "fired (triggerChildUncomposedCallback e this c ct s) =
     fired s @ (if hasChildUncomposedCallback e this then [ChildUncomposed this c ct] else [])"
  by (simp add: triggerChildUncomposedCallback_def)



lemma uncomposeChildren_fired:
  "fired (uncomposeChildren e this cs s) =
     fired s @ (if hasChildUncomposedCallback e this
                then map (\<lambda>c. ChildUncomposed this c Actual)
                       (filter (\<lambda>c. isTreeNode (kind e c)) cs)
                else [])"
  by (induction cs arbitrary: s) (simp_all add: uncomposed_fired)

lemma uncomposeChildren_flag:
  "p_isPossiblyDistributedToShadowRoot (uncomposeChildren e this cs s) c \<longleftrightarrow>
     p_isPossiblyDistributedToShadowRoot s c \<or> (c \<in> set cs \<and> isTreeNode (kind e c))"
  by (induction cs arbitrary: s) auto

lemma uncomposeChildren_frame [simp]:
  "p_shadowRoot (uncomposeChildren e this cs s) = p_shadowRoot s"
  "p_prevAssignedNodes (uncomposeChildren e this cs s) = p_prevAssignedNodes s"
  "p_distributedParent (uncomposeChildren e this cs s) = p_distributedParent s"
  "p_shadowRootParent (uncomposeChildren e this cs s) = p_shadowRootParent s"
  "p_distributedChildren (uncomposeChildren e this cs s) = p_distributedChildren s"
  "observers (uncomposeChildren e this cs s) = observers s"
  "listeners (uncomposeChildren e this cs s) = listeners s"
  "deferred (uncomposeChildren e this cs s) = deferred s"
  "whenDefinedQueue (uncomposeChildren e this cs s) = whenDefinedQueue s"
  by (induction cs arbitrary: s) simp_all

subsection \<open>The difference of two assignments\<close>

lemma diff_added_removed:
  "fst (getDistributedChildDifference e this slot s) =
     diffLoop 0 (case p_prevAssignedNodes s this slot of None \<Rightarrow> [] | Some ns \<Rightarrow> ns)
       (resolveNewNodes e this slot) []"
  by (simp add: getDistributedChildDifference_def Let_def)

lemma diff_store:
  "snd (getDistributedChildDifference e this slot s) =
     s\<lparr> p_prevAssignedNodes := (p_prevAssignedNodes s)
            (this := (p_prevAssignedNodes s this)(slot \<mapsto> resolveNewNodes e this slot)) \<rparr>"
  by (simp add: getDistributedChildDifference_def Let_def)

lemma diffLoop_empty: "diffLoop i prev [] removed = ([], removed @ prev)"
  by (induction prev arbitrary: i removed) simp_all

text \<open>
  With four different nodes, the loop on \<open>[A, B, C]\<close> against \<open>[B, C, D]\<close>: \<open>A\<close> is absent and
  goes to \<open>removed\<close>; \<open>B\<close> is found, and \<open>splice(1, 1)\<close> takes out \<open>C\<close>, the element at the
  loop index, not \<open>B\<close>; \<open>C\<close> is then absent and goes to \<open>removed\<close> too.
\<close>

lemma diffLoop_ABC_BCD:
  assumes "distinct [A, B, C, D]"
  shows "diffLoop 0 [A, B, C] [B, C, D] [] = ([B, D], [A, C])"
  using assms by (auto simp: splice1_def)

text \<open>
  C1. The claim: with the recorded list \<open>[A, B, C]\<close> and the new list \<open>[B, C, D]\<close> the difference
  is \<open>removed = [A]\<close>, \<open>added = [D]\<close>. The method, run first on a slot holding \<open>[5, 6, 7]\<close>
  and then on the same slot holding \<open>[6, 7, 8]\<close>, returns \<open>added = [6, 8]\<close> and
  \<open>removed = [5, 7]\<close>: the unchanged \<open>6\<close> is reported as added and the unchanged \<open>7\<close> as
  removed.
\<close>

theorem diff_ABC_then_BCD:
  "fst (getDistributedChildDifference docBCD 1 11
          (snd (getDistributedChildDifference docABC 1 11 initial))) = ([6, 8], [5, 7])"
  by (simp add: diff_added_removed diff_store resolveNewNodes_def docABC_def docBCD_def
      document_def initial_def splice1_def)

text \<open>
  C6. A slot that is itself assigned to another slot contributes the empty list to a tracker
  that is not a scene, so the whole recorded list comes back as removed and nothing as
  added, and the empty list becomes the record; for a scene the resolved list is the slot's
  flattened assigned elements whatever \<open>assignedSlot\<close> is, and that list becomes the record.
\<close>

theorem reslotted_slot_contribution:
  "(\<not> isSceneProp e this \<and> assignedSlot e slot \<noteq> None \<longrightarrow>
      resolveNewNodes e this slot = [] \<and>
      fst (getDistributedChildDifference e this slot s) =
        ([], case p_prevAssignedNodes s this slot of None \<Rightarrow> [] | Some ns \<Rightarrow> ns) \<and>
      p_prevAssignedNodes (snd (getDistributedChildDifference e this slot s)) this slot = Some [])
   \<and> (isSceneProp e this \<longrightarrow>
      resolveNewNodes e this slot = assignedElements e slot \<and>
      p_prevAssignedNodes (snd (getDistributedChildDifference e this slot s)) this slot
        = Some (assignedElements e slot))"
  by (simp add: diff_added_removed diff_store resolveNewNodes_def diffLoop_empty)

theorem reslotted_slot_contribution_witness:
  "\<not> isSceneProp docReslotted 1 \<and> assignedSlot docReslotted 11 \<noteq> None
   \<and> fst (getDistributedChildDifference docReslotted 1 11
            (snd (getDistributedChildDifference docABC 1 11 initial))) = ([], [5, 6, 7])
   \<and> isSceneProp docSceneSlot 30
   \<and> resolveNewNodes docSceneSlot 30 11 = [5, 6, 7]"
  using reslotted_slot_contribution [of docReslotted 1 11
          "snd (getDistributedChildDifference docABC 1 11 initial)"]
        reslotted_slot_contribution [of docSceneSlot 30 11 initial]
  by (simp add: diff_store resolveNewNodes_def docSceneSlot_def docReslotted_def docABC_def
      document_def initial_def)

subsection \<open>Who writes the two composition pointers\<close>

lemma leave_frame [simp]:
  "p_distributedParent (leavePreviousParent x s) = p_distributedParent s"
  "p_shadowRootParent (leavePreviousParent x s) = p_shadowRootParent s"
  "fired (leavePreviousParent x s) = fired s"
  "whenDefinedQueue (leavePreviousParent x s) = whenDefinedQueue s"
  by (simp_all add: leavePreviousParent_def Let_def split: option.splits)

lemma join_frame [simp]:
  "p_distributedParent (joinThis this x s) = (p_distributedParent s)(x := Some this)"
  "p_shadowRootParent (joinThis this x s) = p_shadowRootParent s"
  "fired (joinThis this x s) = fired s"
  "whenDefinedQueue (joinThis this x s) = whenDefinedQueue s"
  by (simp_all add: joinThis_def Let_def)

lemma addedLoop_shadowRootParent [simp]:
  "p_shadowRootParent (addedLoop e this added s) = p_shadowRootParent s"
  by (induction added arbitrary: s) simp_all

lemma addedLoop_distributedParent:
  "p_distributedParent (addedLoop e this added s) n =
     (if n \<in> set added \<and> isTreeNode (kind e n) then Some this else p_distributedParent s n)"
  by (induction added arbitrary: s) auto

lemma removedLoop_shadowRootParent [simp]:
  "p_shadowRootParent (fst (removedLoop e this removed s)) = p_shadowRootParent s"
  by (induction removed arbitrary: s) (simp_all add: Let_def split: option.splits)

lemma removedLoop_distributedParent:
  "p_distributedParent (fst (removedLoop e this removed s)) n = p_distributedParent s n
   \<or> p_distributedParent (fst (removedLoop e this removed s)) n = None"
proof (induction removed arbitrary: s)
  case Nil
  show ?case by simp
next
  case (Cons r rest)
  show ?case
  proof (cases "isTreeNode (kind e r)")
    case False
    then show ?thesis using Cons.IH [of s] by simp
  next
    case True
    let ?s1 = "s\<lparr> p_distributedParent := (p_distributedParent s)(r := None) \<rparr>"
    show ?thesis
    proof (cases "p_distributedChildren s this")
      case None
      with True show ?thesis by simp
    next
      case (Some dc)
      let ?s2 = "triggerChildUncomposedCallback e this r Slot
                   (?s1\<lparr> p_distributedChildren := (p_distributedChildren ?s1)
                           (this := if setDelete r dc = [] then None else Some (setDelete r dc)) \<rparr>)"
      have "p_distributedParent ?s2 n = p_distributedParent s n \<or> p_distributedParent ?s2 n = None"
        by simp
      with Cons.IH [of ?s2] True Some show ?thesis
        by (auto simp: Let_def)
    qed
  qed
qed

lemma diffLoop_added_subset: "set (fst (diffLoop i prev new removed)) \<subseteq> set new"
proof (induction prev arbitrary: i new removed)
  case Nil
  show ?case by simp
next
  case (Cons p prev)
  have "set (splice1 i new) \<subseteq> set new"
    unfolding splice1_def using set_take_subset [of i new] set_drop_subset [of "Suc i" new]
    by auto
  with Cons.IH [of "Suc i" "splice1 i new" removed] Cons.IH [of "Suc i" new "removed @ [p]"]
  show ?case by auto
qed

lemma handle_shadowRootParent [simp]:
  "p_shadowRootParent (fst (handleDistributedChildren e this slot s)) = p_shadowRootParent s"
  by (simp add: handleDistributedChildren_def split_beta diff_store)

lemma reachable_run:
  "reachable G s \<Longrightarrow> admissible G steps s \<Longrightarrow> reachable G (run steps s)"
proof (induction steps arbitrary: s)
  case Nil
  then show ?case by simp
next
  case (Cons a steps)
  obtain e st where a: "a = (e, st)" by (cases a)
  with Cons.prems have "reachable G (exec e st s)" "admissible G steps (exec e st s)"
    by (auto intro: reachable.step)
  with Cons.IH a show ?case by simp
qed

lemmas model_defs =
  childConnectedCallback_def addListener_def removeListener_def forgetSlot_def
  handleDistributedChildren_def getDistributedChildDifference_def resolveNewNodes_def
  leavePreviousParent_def joinThis_def triggerChildComposedCallback_def
  triggerChildUncomposedCallback_def setAdd_def setDelete_def splice1_def Let_def
  shadowRootChildAdded_def shadowRootChildRemoved_def childDisconnectedCallback_def
  attachShadow_def whenDefinedResolved_def

lemmas doc_defs = stage_def document_def initial_def

text \<open>
  C4, as stated: in every store reached by tracked mutations, no node has both
  \<open>__distributedParent\<close> and \<open>__shadowRootParent\<close> set. It fails: element \<open>5\<close> is distributed
  to \<open>1\<close> through slot \<open>11\<close>, then moved into the shadow root of \<open>3\<close>. The observer of that
  root reports the child, \<open>__shadowRootChildAdded\<close> sets \<open>__shadowRootParent\<close> and calls
  \<open>childComposedCallback(5, 'root')\<close> while \<open>__distributedParent\<close> still points to \<open>1\<close>; only
  the later \<open>slotchange\<close> of slot \<open>11\<close> clears it.
\<close>

theorem both_pointers_set:
  "reachable anyDelivery (run slotThenRoot initial)
   \<and> \<not> exclusiveAt (run slotThenRoot initial) 5"
proof
  have "admissible anyDelivery slotThenRoot initial"
    by (simp add: slotThenRoot_def anyDelivery_def docSlotted_def docMoved_def model_defs doc_defs)
  then show "reachable anyDelivery (run slotThenRoot initial)"
    by (rule reachable_run [OF reachable.start])
  show "\<not> exclusiveAt (run slotThenRoot initial) 5"
    by (simp add: exclusiveAt_def slotThenRoot_def docSlotted_def docMoved_def model_defs doc_defs)
qed

subsection \<open>The pointers follow what the document delivers\<close>

lemma leave_frame_more [simp]:
  "p_prevAssignedNodes (leavePreviousParent x s) = p_prevAssignedNodes s"
  "deferred (leavePreviousParent x s) = deferred s"
  by (simp_all add: leavePreviousParent_def Let_def split: option.splits)

lemma join_frame_more [simp]:
  "p_prevAssignedNodes (joinThis this x s) = p_prevAssignedNodes s"
  "deferred (joinThis this x s) = deferred s"
  by (simp_all add: joinThis_def Let_def)

lemma addedLoop_frame_more [simp]:
  "p_prevAssignedNodes (addedLoop e this added s) = p_prevAssignedNodes s"
  "deferred (addedLoop e this added s) = deferred s"
  by (induction added arbitrary: s) simp_all

lemma removedLoop_frame_more [simp]:
  "p_prevAssignedNodes (fst (removedLoop e this removed s)) = p_prevAssignedNodes s"
  "deferred (fst (removedLoop e this removed s)) = deferred s"
  by (induction removed arbitrary: s) (simp_all add: Let_def split: option.splits)

lemma handle_frame_more:
  "p_prevAssignedNodes (fst (handleDistributedChildren e this slot s)) =
     (p_prevAssignedNodes s)(this := (p_prevAssignedNodes s this)(slot \<mapsto> resolveNewNodes e this slot))"
  "deferred (fst (handleDistributedChildren e this slot s)) = deferred s"
  by (simp_all add: handleDistributedChildren_def split_beta diff_store)

lemma members_trigger [simp]:
  "members (triggerChildComposedCallback e this c ct s) = members s"
  "members (triggerChildUncomposedCallback e this c ct s) = members s"
  by (simp_all add: members_def fun_eq_iff)

lemma members_leave:
  "members (leavePreviousParent a s) q =
     (if p_distributedParent s a = Some q then removeAll a (members s q) else members s q)"
  by (auto simp: members_def leavePreviousParent_def setDelete_def Let_def split: option.splits)

lemma members_join:
  "members (joinThis this a s) q = (if q = this then setAdd a (members s this) else members s q)"
  by (simp add: members_def joinThis_def Let_def)

lemma pointed_added_step:
  assumes "pointed s"
  shows "pointed (triggerChildComposedCallback e this a Slot
                    (joinThis this a (leavePreviousParent a s)))"
  unfolding pointed_def
proof (intro allI impI)
  fix x p
  let ?s' = "triggerChildComposedCallback e this a Slot (joinThis this a (leavePreviousParent a s))"
  assume dp: "p_distributedParent ?s' x = Some p"
  show "x \<in> set (members ?s' p)"
  proof (cases "x = a")
    case True
    with dp have "p = this" by simp
    with True show ?thesis by (simp add: members_join setAdd_def)
  next
    case False
    with dp have "p_distributedParent s x = Some p" by simp
    with assms have "x \<in> set (members s p)" by (simp add: pointed_def)
    with False show ?thesis by (auto simp: members_join members_leave setAdd_def)
  qed
qed

lemma pointed_addedLoop: "pointed s \<Longrightarrow> pointed (addedLoop e this added s)"
  by (induction added arbitrary: s) (simp_all add: pointed_added_step)

lemma pointed_unpoint:
  "pointed s \<Longrightarrow> pointed (s\<lparr> p_distributedParent := (p_distributedParent s)(r := None) \<rparr>)"
  by (simp add: pointed_def members_def)

lemma pointed_removed_step:
  assumes "pointed s" and "p_distributedChildren s this = Some d"
  shows "pointed (triggerChildUncomposedCallback e this r Slot
           (s\<lparr> p_distributedParent := (p_distributedParent s)(r := None),
                p_distributedChildren := (p_distributedChildren s)
                  (this := if setDelete r d = [] then None else Some (setDelete r d)) \<rparr>))"
  unfolding pointed_def
proof (intro allI impI)
  fix x p
  let ?s' = "triggerChildUncomposedCallback e this r Slot
           (s\<lparr> p_distributedParent := (p_distributedParent s)(r := None),
                p_distributedChildren := (p_distributedChildren s)
                  (this := if setDelete r d = [] then None else Some (setDelete r d)) \<rparr>)"
  assume dp: "p_distributedParent ?s' x = Some p"
  then have xr: "x \<noteq> r" and old: "p_distributedParent s x = Some p"
    by (auto split: if_splits)
  with assms(1) have mem: "x \<in> set (members s p)" by (simp add: pointed_def)
  show "x \<in> set (members ?s' p)"
  proof (cases "p = this")
    case True
    with mem assms(2) have "x \<in> set d" by (simp add: members_def)
    with xr have "x \<in> set (setDelete r d)" by (simp add: setDelete_def)
    with True show ?thesis by (auto simp: members_def)
  next
    case False
    with mem show ?thesis by (simp add: members_def)
  qed
qed

lemma pointed_removedLoop: "pointed s \<Longrightarrow> pointed (fst (removedLoop e this removed s))"
proof (induction removed arbitrary: s)
  case Nil
  then show ?case by simp
next
  case (Cons r removed)
  show ?case
  proof (cases "isTreeNode (kind e r)")
    case False
    with Cons show ?thesis by simp
  next
    case True
    show ?thesis
    proof (cases "p_distributedChildren s this")
      case None
      with True pointed_unpoint [OF Cons.prems, of r] show ?thesis by simp
    next
      case (Some d)
      from Cons.IH [OF pointed_removed_step [OF Cons.prems Some, of e r]] True Some
      show ?thesis by (simp add: Let_def)
    qed
  qed
qed

lemma removedLoop_keeps_null:
  "p_distributedParent s m = None \<Longrightarrow>
   p_distributedParent (fst (removedLoop e this removed s)) m = None"
  using removedLoop_distributedParent [of e this removed s m] by auto

text \<open>
  The second loop does clear the pointer of a removed tree node that points to \<open>this\<close>:
  as long as the node is in the set of \<open>this\<close>, the set is not \<open>undefined\<close> and nothing
  throws before the node's turn.
\<close>

lemma removedLoop_clears:
  assumes "pointed s" and "p_distributedParent s m = Some this"
    and "m \<in> set removed" and "isTreeNode (kind e m)"
  shows "p_distributedParent (fst (removedLoop e this removed s)) m = None"
  using assms
proof (induction removed arbitrary: s)
  case Nil
  then show ?case by simp
next
  case (Cons r removed)
  show ?case
  proof (cases "isTreeNode (kind e r)")
    case False
    with Cons.prems have "m \<in> set removed" by auto
    with Cons.IH [OF Cons.prems(1,2) _ Cons.prems(4)] False show ?thesis by simp
  next
    case True
    let ?s1 = "s\<lparr> p_distributedParent := (p_distributedParent s)(r := None) \<rparr>"
    from Cons.prems(1,2) have mem: "m \<in> set (members s this)" by (simp add: pointed_def)
    then obtain d where d: "p_distributedChildren s this = Some d" "m \<in> set d"
      by (cases "p_distributedChildren s this") (auto simp: members_def)
    let ?s3 = "triggerChildUncomposedCallback e this r Slot
           (s\<lparr> p_distributedParent := (p_distributedParent s)(r := None),
                p_distributedChildren := (p_distributedChildren s)
                  (this := if setDelete r d = [] then None else Some (setDelete r d)) \<rparr>)"
    have res: "fst (removedLoop e this (r # removed) s) = fst (removedLoop e this removed ?s3)"
      using True d by (simp add: Let_def)
    show ?thesis
    proof (cases "r = m")
      case True
      then have "p_distributedParent ?s3 m = None" by simp
      then show ?thesis unfolding res by (rule removedLoop_keeps_null)
    next
      case False
      with Cons.prems have "m \<in> set removed" "p_distributedParent ?s3 m = Some this" by auto
      with Cons.IH [OF pointed_removed_step [OF Cons.prems(1) d(1), of e r] _ _ Cons.prems(4)]
      show ?thesis unfolding res by simp
    qed
  qed
qed

lemma diffLoop_keeps_removed: "set removed \<subseteq> set (snd (diffLoop i prev new removed))"
proof (induction prev arbitrary: i new removed)
  case Nil
  show ?case by simp
next
  case (Cons p prev)
  from Cons.IH [where i = "Suc i" and new = new and removed = "removed @ [p]"]
    Cons.IH [where i = "Suc i" and new = "splice1 i new" and removed = removed]
  show ?case by auto
qed

lemma splice1_subset: "set (splice1 i xs) \<subseteq> set xs"
  unfolding splice1_def using set_take_subset [of i xs] set_drop_subset [of "Suc i" xs] by auto

text \<open>Whatever the loop does to the working copy, a recorded node absent from the new list
  ends up in \<open>removed\<close>.\<close>

lemma diffLoop_absent_removed:
  "x \<in> set prev \<Longrightarrow> x \<notin> set new \<Longrightarrow> x \<in> set (snd (diffLoop i prev new removed))"
proof (induction prev arbitrary: i new removed)
  case Nil
  then show ?case by simp
next
  case (Cons p prev)
  show ?case
  proof (cases "p \<in> set new")
    case True
    with Cons.prems have "x \<in> set prev" "x \<notin> set (splice1 i new)"
      using splice1_subset [of i new] by auto
    from Cons.IH [OF this] True show ?thesis by simp
  next
    case False
    show ?thesis
    proof (cases "x = p")
      case True
      with False diffLoop_keeps_removed [where removed = "removed @ [p]" and i = "Suc i"
          and prev = prev and new = new] show ?thesis by auto
    next
      case notp: False
      with Cons.prems have "x \<in> set prev" by simp
      from Cons.IH [OF this Cons.prems(2)] False show ?thesis by simp
    qed
  qed
qed

lemma tracked_pointed: "tracked K s R \<Longrightarrow> pointed s"
  by (simp add: tracked_def pointed_def)

lemma tracked_same:
  "p_distributedParent s0 = p_distributedParent s \<Longrightarrow>
   p_distributedChildren s0 = p_distributedChildren s \<Longrightarrow>
   tracked K s0 R = tracked K s R"
  by (simp add: tracked_def members_def)

text \<open>
  One resolution of a slot. A node that keeps pointing to a parent is still in a list
  resolved for a slot of that parent: if it has left the list of this slot, it is in
  \<open>removed\<close>, and the second loop has cleared its pointer.
\<close>

lemma handle_tracked:
  assumes tr: "tracked K s R"
    and snap: "(case p_prevAssignedNodes s this slot of None \<Rightarrow> [] | Some ns \<Rightarrow> ns) = R (this, slot)"
    and k: "kind e = K"
  shows "tracked K (fst (handleDistributedChildren e this slot s))
           (R((this, slot) := resolveNewNodes e this slot))"
proof -
  let ?L = "resolveNewNodes e this slot"
  obtain added removed s1 where d: "getDistributedChildDifference e this slot s = ((added, removed), s1)"
    by (metis surj_pair)
  have added: "set added \<subseteq> set ?L"
    using diff_added_removed [of e this slot s] diffLoop_added_subset d by (metis fst_conv)
  have "fst (getDistributedChildDifference e this slot s) = diffLoop 0 (R (this, slot)) ?L []"
    using diff_added_removed [of e this slot s] snap by simp
  with d have removed: "removed = snd (diffLoop 0 (R (this, slot)) ?L [])"
    by (metis fst_conv snd_conv)
  have s1: "p_distributedParent s1 = p_distributedParent s"
    "p_distributedChildren s1 = p_distributedChildren s"
    using diff_store [of e this slot s] d by simp_all
  let ?s2 = "addedLoop e this added s1"
  let ?s3 = "fst (removedLoop e this removed ?s2)"
  have s3: "fst (handleDistributedChildren e this slot s) = ?s3"
    using d by (simp add: handleDistributedChildren_def)
  from tr tracked_same [OF s1, of K R] have "tracked K s1 R" by blast
  then have p1: "pointed s1" by (rule tracked_pointed)
  then have p2: "pointed ?s2" by (rule pointed_addedLoop)
  then have p3: "pointed ?s3" by (rule pointed_removedLoop)
  show ?thesis
    unfolding s3 tracked_def
  proof (intro allI impI)
    fix x p
    assume dp3: "p_distributedParent ?s3 x = Some p"
    with removedLoop_distributedParent [of e this removed ?s2 x]
    have dp2: "p_distributedParent ?s2 x = Some p" by auto
    from p3 dp3 have mem: "x \<in> set (members ?s3 p)" by (simp add: pointed_def)
    show "isTreeNode (K x) \<and> x \<in> set (members ?s3 p)
          \<and> (\<exists>sl. x \<in> set ((R((this, slot) := ?L)) (p, sl)))"
    proof (cases "x \<in> set added \<and> isTreeNode (kind e x)")
      case True
      with dp2 have "p = this" by (simp add: addedLoop_distributedParent)
      with True added k mem show ?thesis by auto
    next
      case False
      with dp2 s1 have old: "p_distributedParent s x = Some p"
        by (simp add: addedLoop_distributedParent)
      with tr have tree: "isTreeNode (K x)" and ex: "\<exists>sl. x \<in> set (R (p, sl))"
        by (auto simp: tracked_def)
      from ex obtain sl where sl: "x \<in> set (R (p, sl))" ..
      have "\<exists>sl. x \<in> set ((R((this, slot) := ?L)) (p, sl))"
      proof (cases "(p, sl) = (this, slot)")
        case False
        with sl show ?thesis by (auto intro: exI [of _ sl])
      next
        case same: True
        have "x \<in> set ?L"
        proof (rule ccontr)
          assume "x \<notin> set ?L"
          with sl same have "x \<in> set removed"
            unfolding removed by (intro diffLoop_absent_removed) simp_all
          moreover from dp2 same have "p_distributedParent ?s2 x = Some this" by simp
          moreover from tree k have "isTreeNode (kind e x)" by simp
          ultimately have "p_distributedParent ?s3 x = None"
            using p2 by (intro removedLoop_clears)
          with dp3 show False by simp
        qed
        with same show ?thesis by (auto intro: exI [of _ slot])
      qed
      with tree mem show ?thesis by simp
    qed
  qed
qed

lemma resolution_eq: "deferred s = pend \<Longrightarrow> resolution e st pend = distributionOf e st s"
  by (cases st) auto

text \<open>The part of a resolving step that all of them share.\<close>

lemma agrees_handle:
  assumes ag: "agrees K s l" and k: "kind e = K"
    and sa: "p_prevAssignedNodes sa = p_prevAssignedNodes s"
      "p_distributedParent sa = p_distributedParent s"
      "p_distributedChildren sa = p_distributedChildren s"
      "p_shadowRootParent sa = p_shadowRootParent s"
    and l': "resolved l' = (resolved l)((this, slot) := resolveNewNodes e this slot)"
      "slotsSeen l' = (this, slot) # slotsSeen l" "rootOf l' = rootOf l"
      "pending l' = deferred sa"
  shows "agrees K (fst (handleDistributedChildren e this slot sa)) l'"
proof -
  let ?s' = "fst (handleDistributedChildren e this slot sa)"
  from ag have snap: "\<And>p sl. (case p_prevAssignedNodes s p sl of None \<Rightarrow> [] | Some ns \<Rightarrow> ns)
                        = resolved l (p, sl)"
    and tr: "tracked K s (resolved l)"
    and root: "\<And>n h. p_shadowRootParent s n = Some h \<Longrightarrow> rootOf l n = Some h"
    and seen: "\<And>k. resolved l k \<noteq> [] \<Longrightarrow> k \<in> set (slotsSeen l)"
    by (auto simp: agrees_def)
  from tr tracked_same [OF sa(2,3), of K "resolved l"] have "tracked K sa (resolved l)" by blast
  moreover have "(case p_prevAssignedNodes sa this slot of None \<Rightarrow> [] | Some ns \<Rightarrow> ns)
                   = resolved l (this, slot)"
    using snap [of this slot] sa by simp
  ultimately have t': "tracked K ?s' (resolved l')"
    unfolding l' using k by (rule handle_tracked)
  have prev': "p_prevAssignedNodes ?s' =
      (p_prevAssignedNodes s)(this := (p_prevAssignedNodes s this)(slot \<mapsto> resolveNewNodes e this slot))"
    using sa(1) by (simp add: handle_frame_more)
  have snap': "(case p_prevAssignedNodes ?s' p sl of None \<Rightarrow> [] | Some ns \<Rightarrow> ns)
                 = resolved l' (p, sl)" for p sl
  proof (cases "p = this \<and> sl = slot")
    case True
    then show ?thesis by (simp add: prev' l'(1))
  next
    case False
    then have "p_prevAssignedNodes ?s' p sl = p_prevAssignedNodes s p sl"
      by (auto simp: prev')
    with False snap [of p sl] show ?thesis by (auto simp: l'(1))
  qed
  have root': "rootOf l' n = Some h" if "p_shadowRootParent ?s' n = Some h" for n h
    using that root [of n h] sa(4) by (simp add: l'(3))
  have seen': "k \<in> set (slotsSeen l')" if "resolved l' k \<noteq> []" for k
  proof (cases "k = (this, slot)")
    case True
    then show ?thesis by (simp add: l'(2))
  next
    case False
    with that seen [of k] show ?thesis by (simp add: l'(1,2))
  qed
  have def': "deferred ?s' = pending l'"
    by (simp add: handle_frame_more l'(4))
  show ?thesis
    unfolding agrees_def
  proof (intro conjI allI impI)
    show "deferred ?s' = pending l'" by (rule def')
    show "tracked K ?s' (resolved l')" by (rule t')
  qed (rule snap' root' seen', assumption?)+
qed

lemma agrees_same:
  assumes "agrees K s l"
    and "p_prevAssignedNodes s' = p_prevAssignedNodes s"
      "p_distributedParent s' = p_distributedParent s"
      "p_distributedChildren s' = p_distributedChildren s"
      "p_shadowRootParent s' = p_shadowRootParent s"
    and "deferred s' = pending l'" "resolved l' = resolved l" "rootOf l' = rootOf l"
      "slotsSeen l' = slotsSeen l"
  shows "agrees K s' l'"
  using assms by (simp add: agrees_def tracked_def members_def)

lemma agrees_forget:
  assumes "agrees K s l" and "resolved l (this, slot) = []"
  shows "agrees K (forgetSlot this slot s) l"
  unfolding agrees_def
proof (intro conjI allI impI)
  fix p sl
  show "(case p_prevAssignedNodes (forgetSlot this slot s) p sl of None \<Rightarrow> [] | Some ns \<Rightarrow> ns)
          = resolved l (p, sl)"
  proof (cases "p = this \<and> sl = slot")
    case True
    with assms(2) show ?thesis by (simp add: forgetSlot_def)
  next
    case False
    then have "p_prevAssignedNodes (forgetSlot this slot s) p sl = p_prevAssignedNodes s p sl"
      by (auto simp: forgetSlot_def)
    with assms(1) show ?thesis by (simp add: agrees_def)
  qed
qed (use assms(1) in \<open>auto simp: agrees_def tracked_def members_def forgetSlot_def\<close>)

lemma agrees_root_report:
  assumes "agrees K s l"
  shows "agrees K (s\<lparr> p_shadowRootParent := (p_shadowRootParent s)(c := v) \<rparr>)
           (l\<lparr> rootOf := (rootOf l)(c := v) \<rparr>)"
  using assms by (simp add: agrees_def tracked_def members_def)

text \<open>Every step keeps the store in agreement with the ledger.\<close>

lemma agrees_step:
  assumes ag: "agrees K s l" and doc: "documentLike K e st"
  shows "agrees K (exec e st s) (booked e st l)"
proof -
  from ag have def: "deferred s = pending l" by (simp add: agrees_def)
  from doc have k: "kind e = K" by (cases st) simp_all
  note res = resolution_eq [OF def, of e st]
  show ?thesis
  proof (cases st)
    case (AttachShadow this r)
    with ag def show ?thesis
      by (intro agrees_same [OF ag])
         (auto simp: booked_def attachShadow_def Let_def split: sum.splits)
  next
    case (ChildConnected this child)
    with ag def show ?thesis
      by (intro agrees_same [OF ag])
         (auto simp: booked_def childConnectedCallback_def addListener_def)
  next
    case (ChildDisconnected this child)
    show ?thesis
    proof (cases "\<not> isNode e child \<and> isHTMLSlotElement (kind e child)")
      case False
      with ChildDisconnected ag def show ?thesis
        by (intro agrees_same [OF ag]) (auto simp: booked_def childDisconnectedCallback_def)
    next
      case True
      let ?s0 = "removeListener child this s"
      let ?h = "handleDistributedChildren e this child ?s0"
      from True ChildDisconnected doc have empty: "resolveNewNodes e this child = []" by simp
      have "agrees K (fst ?h) (booked e st l)"
        using ChildDisconnected True def
        by (intro agrees_handle [OF ag k, where sa = ?s0])
           (simp_all add: booked_def removeListener_def)
      moreover have "resolved (booked e st l) (this, child) = []"
        using ChildDisconnected True empty by (simp add: booked_def)
      ultimately have "agrees K (forgetSlot this child (fst ?h)) (booked e st l)"
        by (rule agrees_forget)
      with \<open>agrees K (fst ?h) (booked e st l)\<close> ChildDisconnected True show ?thesis
        by (auto simp: childDisconnectedCallback_def split: prod.splits option.splits)
    qed
  next
    case (ShadowRootChildAdded this child)
    show ?thesis
    proof (cases "isTreeNode (kind e child)")
      case True
      let ?s1 = "s\<lparr> p_shadowRootParent := (p_shadowRootParent s)(child := Some this) \<rparr>"
      let ?l1 = "l\<lparr> rootOf := (rootOf l)(child := Some this) \<rparr>"
      have "agrees K ?s1 ?l1" using ag by (rule agrees_root_report)
      then have "agrees K (triggerChildComposedCallback e this child Root ?s1) ?l1"
        by (rule agrees_same) (simp_all add: def)
      with True ShadowRootChildAdded show ?thesis
        by (simp add: shadowRootChildAdded_def booked_def)
    next
      case notTree: False
      show ?thesis
      proof (cases "isHTMLSlotElement (kind e child)")
        case False
        with notTree ShadowRootChildAdded ag def show ?thesis
          by (intro agrees_same [OF ag]) (auto simp: booked_def shadowRootChildAdded_def)
      next
        case True
        have "agrees K (fst (handleDistributedChildren e this child (addListener child this s)))
                (booked e st l)"
          using ShadowRootChildAdded notTree True def
          by (intro agrees_handle [OF ag k, where sa = "addListener child this s"])
             (simp_all add: booked_def addListener_def)
        with ShadowRootChildAdded notTree True show ?thesis
          by (simp add: shadowRootChildAdded_def)
      qed
    qed
  next
    case (ShadowRootChildRemoved this child)
    show ?thesis
    proof (cases "isTreeNode (kind e child)")
      case True
      let ?s1 = "s\<lparr> p_shadowRootParent := (p_shadowRootParent s)(child := None) \<rparr>"
      let ?l1 = "l\<lparr> rootOf := (rootOf l)(child := None) \<rparr>"
      have "agrees K ?s1 ?l1" using ag by (rule agrees_root_report)
      then have "agrees K (triggerChildUncomposedCallback e this child Root ?s1) ?l1"
        by (rule agrees_same) (simp_all add: def)
      with True ShadowRootChildRemoved show ?thesis
        by (simp add: shadowRootChildRemoved_def booked_def)
    next
      case notTree: False
      show ?thesis
      proof (cases "isHTMLSlotElement (kind e child)")
        case False
        with notTree ShadowRootChildRemoved ag def show ?thesis
          by (intro agrees_same [OF ag]) (auto simp: booked_def shadowRootChildRemoved_def)
      next
        case True
        let ?s0 = "removeListener child this s"
        let ?h = "handleDistributedChildren e this child ?s0"
        from True ShadowRootChildRemoved doc have empty: "resolveNewNodes e this child = []"
          by simp
        have h: "agrees K (fst ?h) (booked e st l)"
          using ShadowRootChildRemoved notTree True def
          by (intro agrees_handle [OF ag k, where sa = ?s0])
             (simp_all add: booked_def removeListener_def)
        moreover have "resolved (booked e st l) (this, child) = []"
          using ShadowRootChildRemoved notTree True empty by (simp add: booked_def)
        ultimately have "agrees K (forgetSlot this child (fst ?h)) (booked e st l)"
          by (rule agrees_forget)
        with h ShadowRootChildRemoved notTree True show ?thesis
          by (auto simp: shadowRootChildRemoved_def split: prod.splits option.splits)
      qed
    qed
  next
    case (SlotChange this slot)
    have "agrees K (fst (handleDistributedChildren e this slot s)) (booked e st l)"
      using SlotChange def
      by (intro agrees_handle [OF ag k, where sa = s]) (simp_all add: booked_def)
    with SlotChange show ?thesis by simp
  next
    case RunDeferred
    show ?thesis
    proof (cases "deferred s")
      case Nil
      with RunDeferred ag def show ?thesis
        by (intro agrees_same [OF ag]) (auto simp: booked_def)
    next
      case (Cons d rest)
      obtain this slot where d: "d = (this, slot)" by (cases d)
      have "agrees K (fst (handleDistributedChildren e this slot (s\<lparr> deferred := rest \<rparr>)))
              (booked e st l)"
        using RunDeferred Cons d def
        by (intro agrees_handle [OF ag k, where sa = "s\<lparr> deferred := rest \<rparr>"])
           (auto simp: booked_def)
      with RunDeferred Cons d show ?thesis by simp
    qed
  next
    case (WhenDefinedResolved tag)
    with ag def show ?thesis
      by (intro agrees_same [OF ag]) (auto simp: booked_def whenDefinedResolved_def)
  qed
qed

lemma agrees_initial: "agrees K initial blank"
  by (simp add: agrees_def tracked_def initial_def blank_def)

lemma agrees_run:
  "agrees K s l \<Longrightarrow> orderly K tr \<Longrightarrow> agrees K (run tr s) (entries tr l)"
proof (induction tr arbitrary: s l)
  case Nil
  then show ?case by simp
next
  case (Cons a tr)
  obtain e st where a: "a = (e, st)" by (cases a)
  with Cons.prems have "agrees K (exec e st s) (booked e st l)" "orderly K tr"
    by (auto simp: orderly_def intro: agrees_step)
  with Cons.IH a show ?case by simp
qed

lemma heldBy_iff:
  "(\<And>k. resolved l k \<noteq> [] \<Longrightarrow> k \<in> set (slotsSeen l)) \<Longrightarrow>
   heldBy l p n \<longleftrightarrow> (\<exists>sl. n \<in> set (resolved l (p, sl)))"
proof
  assume "heldBy l p n"
  then obtain k where "k \<in> set (slotsSeen l)" "fst k = p" "n \<in> set (resolved l k)"
    by (auto simp: heldBy_def list_ex_iff)
  then have "n \<in> set (resolved l (p, snd k))" by (cases k) auto
  then show "\<exists>sl. n \<in> set (resolved l (p, sl))" ..
next
  assume seen: "\<And>k. resolved l k \<noteq> [] \<Longrightarrow> k \<in> set (slotsSeen l)"
  assume "\<exists>sl. n \<in> set (resolved l (p, sl))"
  then obtain sl where sl: "n \<in> set (resolved l (p, sl))" ..
  then have "resolved l (p, sl) \<noteq> []" by auto
  then have "(p, sl) \<in> set (slotsSeen l)" by (rule seen)
  with sl show "heldBy l p n"
    by (auto simp: heldBy_def list_ex_iff intro!: bexI [of _ "(p, sl)"])
qed

lemma heldBy_held: "heldBy l p n \<Longrightarrow> held l n"
  by (auto simp: heldBy_def held_def list_ex_iff)

text \<open>
  C4, amended. Each pointer follows the notifications of its own kind. As long as elements
  keep their class and a slot reported as removed has no assigned elements at that moment,
  in the store after any sequence of tracked mutations: \<open>N.__shadowRootParent\<close> is \<open>H\<close> only if
  the last shadow-root report about \<open>N\<close> is its addition to the root of \<open>H\<close>, and
  \<open>N.__distributedParent\<close> is \<open>P\<close> only if \<open>N\<close> is in the list last resolved for some slot of
  \<open>P\<close>. So at most one of the two is non-null, except in the window in which the document
  has reported \<open>N\<close> as a shadow-root child while a slot that held \<open>N\<close> has not been resolved
  again.
\<close>

theorem pointers_follow_deliveries:
  "orderly K tr \<Longrightarrow>
     (p_shadowRootParent (run tr initial) n = Some h \<longrightarrow> rootOf (entries tr blank) n = Some h)
   \<and> (p_distributedParent (run tr initial) n = Some p \<longrightarrow> heldBy (entries tr blank) p n)
   \<and> (rootOf (entries tr blank) n = None \<or> \<not> held (entries tr blank) n
        \<longrightarrow> exclusiveAt (run tr initial) n)"
proof -
  assume "orderly K tr"
  with agrees_initial have ag: "agrees K (run tr initial) (entries tr blank)"
    by (rule agrees_run)
  then have root: "p_shadowRootParent (run tr initial) n = Some h \<Longrightarrow>
      rootOf (entries tr blank) n = Some h" for h
    by (simp add: agrees_def)
  from ag have seen: "resolved (entries tr blank) k \<noteq> [] \<Longrightarrow>
      k \<in> set (slotsSeen (entries tr blank))" for k
    by (cases k) (simp add: agrees_def)
  from ag have "tracked K (run tr initial) (resolved (entries tr blank))"
    by (simp add: agrees_def)
  then have slot: "p_distributedParent (run tr initial) n = Some p \<Longrightarrow>
      heldBy (entries tr blank) p n" for p
    using heldBy_iff [of "entries tr blank" p n, OF seen] by (auto simp: tracked_def)
  have "exclusiveAt (run tr initial) n"
    if "rootOf (entries tr blank) n = None \<or> \<not> held (entries tr blank) n"
  proof (rule ccontr)
    assume "\<not> exclusiveAt (run tr initial) n"
    then obtain q r where "p_distributedParent (run tr initial) n = Some q"
      "p_shadowRootParent (run tr initial) n = Some r"
      by (auto simp: exclusiveAt_def)
    with root [of r] slot [of q] heldBy_held [of "entries tr blank" q n] that
    show False by auto
  qed
  with root slot show ?thesis by blast
qed

theorem pointers_follow_deliveries_witness:
  "orderly (kind stage) slotReleaseThenRoot
   \<and> p_shadowRootParent (run slotReleaseThenRoot initial) 5 = Some 3
   \<and> rootOf (entries slotReleaseThenRoot blank) 5 = Some 3
   \<and> \<not> held (entries slotReleaseThenRoot blank) 5
   \<and> exclusiveAt (run slotReleaseThenRoot initial) 5
   \<and> orderly (kind stage) slotThenRoot
   \<and> p_distributedParent (run slotThenRoot initial) 5 = Some 1
   \<and> heldBy (entries slotThenRoot blank) 1 5"
proof -
  have o1: "orderly (kind stage) slotReleaseThenRoot"
    by (simp add: orderly_def slotReleaseThenRoot_def docSlotted_def docMoved_def docDetached_def
        doc_defs)
  have o2: "orderly (kind stage) slotThenRoot"
    by (simp add: orderly_def slotThenRoot_def docSlotted_def docMoved_def doc_defs)
  have a: "p_shadowRootParent (run slotReleaseThenRoot initial) 5 = Some 3"
    by (simp add: slotReleaseThenRoot_def docSlotted_def docMoved_def docDetached_def model_defs
        doc_defs)
  have b: "\<not> held (entries slotReleaseThenRoot blank) 5"
    by (simp add: held_def booked_def blank_def slotReleaseThenRoot_def docSlotted_def docMoved_def
        docDetached_def resolveNewNodes_def doc_defs)
  have c: "p_distributedParent (run slotThenRoot initial) 5 = Some 1"
    by (simp add: slotThenRoot_def docSlotted_def docMoved_def model_defs doc_defs)
  show ?thesis
    using o1 o2 a b c
      pointers_follow_deliveries [OF o1, of 5 3 1]
      pointers_follow_deliveries [OF o2, of 5 3 1]
    by simp
qed

subsection \<open>Composed children\<close>

lemma pushDistributed_eq: "pushDistributed e ds result = result @ filter (isNode e) ds"
  by (induction ds arbitrary: result) simp_all

lemma overRootChildren_eq:
  "overRootChildren e cs result =
     result @ concat (map (\<lambda>sl. filter (isNode e) (assignedElements e sl))
                  (filter (\<lambda>c. isHTMLSlotElement (kind e c) \<and> assignedSlot e c = None) cs))"
  by (induction cs arbitrary: result) (simp_all add: pushDistributed_eq)

text \<open>
  C7. For an element that is not a scene and has a tracked shadow root, \<open>_composedChildren\<close>
  is the list of the nodes assigned (flattened) to the slots that are children of the root
  and are not themselves assigned to a slot, in the order of the slots, followed by the
  children of the root that are tree nodes. For every other element it is the set of
  distributed children followed by the element's own children that are tree nodes.
\<close>

theorem composedChildren_definition:
  "(\<not> isSceneProp e this \<and> p_shadowRoot s this = Some root \<longrightarrow>
      distributedShadowRootChildren e s this =
        concat (map (\<lambda>sl. filter (isNode e) (assignedElements e sl))
                 (filter (\<lambda>c. isHTMLSlotElement (kind e c) \<and> assignedSlot e c = None)
                    (children e root))) \<and>
      composedChildren e s this =
        distributedShadowRootChildren e s this
        @ filter (\<lambda>n. isTreeNode (kind e n)) (children e root))
   \<and> (isSceneProp e this \<or> p_shadowRoot s this = None \<longrightarrow>
      composedChildren e s this =
        (case p_distributedChildren s this of None \<Rightarrow> [] | Some dc \<Rightarrow> dc)
        @ filter (\<lambda>n. isTreeNode (kind e n)) (children e this))"
  by (auto simp: composedChildren_def distributedShadowRootChildren_def shadowRootChildren_def
      overRootChildren_eq)

theorem composedChildren_definition_witness:
  "\<not> isSceneProp docSlotted 1
   \<and> p_shadowRoot (run [(docSlotted, AttachShadow 1 (Inr 21))] initial) 1 = Some 21
   \<and> composedChildren docSlotted (run [(docSlotted, AttachShadow 1 (Inr 21))] initial) 1 = [5]
   \<and> isSceneProp docInScene 30
   \<and> composedChildren docInScene initial 30 = [5]"
  using composedChildren_definition
          [of docSlotted 1 "run [(docSlotted, AttachShadow 1 (Inr 21))] initial" 21]
        composedChildren_definition [of docInScene 30 initial]
  by (simp add: docSlotted_def docInScene_def model_defs doc_defs)

subsection \<open>Composed parent\<close>

text \<open>
  C2, as stated: \<open>_composedParent\<close> returns the distributed-parent pointer whenever it is
  set. It does not for a child of a scene: the getter first returns a parent element that
  is a scene. Element \<open>5\<close> was distributed to \<open>1\<close> and is then appended to the scene \<open>30\<close>;
  its pointer still says \<open>1\<close>, the getter says \<open>30\<close>.
\<close>

theorem composedParent_prefers_scene:
  "p_distributedParent (fst (handleDistributedChildren docBefore 1 11 initial)) 5 = Some 1
   \<and> composedParent docInScene (fst (handleDistributedChildren docBefore 1 11 initial)) 5 = Some 30"
  by (simp add: composedParent_def parentElement_def docInScene_def docBefore_def
      model_defs doc_defs)

text \<open>
  For default content of a slot in a shadow tree the getter gives null also when nothing is
  assigned: the flattened assigned elements of such a slot are its own children, so the
  test \<open>slot.assignedElements({flatten: true}).length\<close> succeeds.
\<close>

lemma default_content_in_shadow_tree: "composedParent docFallback initial 6 = None"
  by (simp add: composedParent_def composedParentOfStructure_def parentElement_def
      docFallback_def doc_defs)

text \<open>
  C2, amended. When the parent element is a scene, \<open>_composedParent\<close> is that scene.
  Otherwise it is the distributed-parent pointer if set; else the shadow-root-parent pointer
  if set; else it is read off the parent node: null without one; for a slot, null when the
  slot has flattened assigned elements, and the slot's parent element when it has none and
  is not a child of a shadow root; for a shadow root, its host; for another HTML element
  without shadow root, that element; with a shadow root, null when the node has no
  assigned slot, else the place of that slot, which is the host when the slot's parent node
  is a shadow root and the slot's parent element otherwise; null for any other parent.
\<close>

theorem composedParent_resolution:
  "(parentElement e n = Some sc \<and> isScene e sc \<longrightarrow> composedParent e s n = Some sc)
   \<and> (\<not> underScene e n \<longrightarrow>
        (p_distributedParent s n = Some d \<longrightarrow> composedParent e s n = Some d)
      \<and> (p_distributedParent s n = None \<and> p_shadowRootParent s n = Some r \<longrightarrow>
            composedParent e s n = Some r)
      \<and> (p_distributedParent s n = None \<and> p_shadowRootParent s n = None \<longrightarrow>
           (parentNode e n = None \<longrightarrow> composedParent e s n = None)
         \<and> (parentNode e n = Some p \<longrightarrow>
               (isHTMLSlotElement (kind e p) \<and> assignedElements e p \<noteq> [] \<longrightarrow>
                  composedParent e s n = None)
             \<and> (isHTMLSlotElement (kind e p) \<and> assignedElements e p = []
                  \<and> parentNode e p = Some b \<and> \<not> isShadowRoot (kind e b) \<longrightarrow>
                  composedParent e s n = (if isElement (kind e b) then Some b else None))
             \<and> (isHTMLSlotElement (kind e p) \<and> assignedElements e p = []
                  \<and> parentNode e p = None \<longrightarrow> composedParent e s n = None)
             \<and> (isShadowRoot (kind e p) \<longrightarrow> composedParent e s n = Some (host e p))
             \<and> (isHTMLElement (kind e p) \<and> \<not> isHTMLSlotElement (kind e p) \<and> \<not> hasShadow e p \<longrightarrow>
                  composedParent e s n = Some p)
             \<and> (isHTMLElement (kind e p) \<and> \<not> isHTMLSlotElement (kind e p) \<and> hasShadow e p \<longrightarrow>
                  (assignedSlot e n = None \<longrightarrow> composedParent e s n = None)
                \<and> (assignedSlot e n = Some sl \<and> parentNode e sl = Some b
                     \<and> isShadowRoot (kind e b) \<longrightarrow> composedParent e s n = Some (host e b))
                \<and> (assignedSlot e n = Some sl \<and> parentNode e sl = Some b
                     \<and> \<not> isShadowRoot (kind e b) \<longrightarrow>
                     composedParent e s n = (if isElement (kind e b) then Some b else None))
                \<and> (assignedSlot e n = Some sl \<and> parentNode e sl = None \<longrightarrow>
                     composedParent e s n = None))
             \<and> (\<not> isHTMLElement (kind e p) \<and> \<not> isShadowRoot (kind e p) \<longrightarrow>
                  composedParent e s n = None))))"
  by (auto simp: composedParent_def underScene_def composedParentOfStructure_def slotOwner_def
         parentElement_def Let_def kind_iffs split: option.splits)

theorem composedParent_resolution_witness:
  "parentElement docInScene 5 = Some 30 \<and> isScene docInScene 30
   \<and> composedParent docInScene initial 5 = Some 30
   \<and> \<not> underScene docSlotted 5
   \<and> p_distributedParent (fst (handleDistributedChildren docBefore 1 11 initial)) 5 = Some 1
   \<and> composedParent docSlotted (fst (handleDistributedChildren docBefore 1 11 initial)) 5 = Some 1
   \<and> \<not> underScene docMoved 5
   \<and> p_distributedParent (run slotReleaseThenRoot initial) 5 = None
   \<and> p_shadowRootParent (run slotReleaseThenRoot initial) 5 = Some 3
   \<and> composedParent docMoved (run slotReleaseThenRoot initial) 5 = Some 3
   \<and> \<not> underScene docLightSlot 6
   \<and> parentNode docLightSlot 6 = Some 11
   \<and> isHTMLSlotElement (kind docLightSlot 11)
   \<and> assignedElements docLightSlot 11 = []
   \<and> parentNode docLightSlot 11 = Some 1
   \<and> \<not> isShadowRoot (kind docLightSlot 1)
   \<and> composedParent docLightSlot initial 6 = Some 1
   \<and> \<not> underScene docSlotted 5
   \<and> parentNode docSlotted 5 = Some 1 \<and> hasShadow docSlotted 1
   \<and> assignedSlot docSlotted 5 = Some 11
   \<and> parentNode docSlotted 11 = Some 21 \<and> isShadowRoot (kind docSlotted 21)
   \<and> composedParent docSlotted initial 5 = Some 1"
proof -
  have scene: "parentElement docInScene 5 = Some 30 \<and> isScene docInScene 30"
    by (simp add: parentElement_def docInScene_def doc_defs)
  have slotted: "\<not> underScene docSlotted 5
      \<and> p_distributedParent (fst (handleDistributedChildren docBefore 1 11 initial)) 5 = Some 1"
    by (simp add: underScene_def parentElement_def docSlotted_def docBefore_def model_defs doc_defs)
  have moved: "\<not> underScene docMoved 5
      \<and> p_distributedParent (run slotReleaseThenRoot initial) 5 = None
      \<and> p_shadowRootParent (run slotReleaseThenRoot initial) 5 = Some 3"
    by (simp add: underScene_def parentElement_def slotReleaseThenRoot_def docSlotted_def
        docMoved_def docDetached_def model_defs doc_defs)
  have content: "\<not> underScene docLightSlot 6
      \<and> p_distributedParent initial 6 = None \<and> p_shadowRootParent initial 6 = None
      \<and> parentNode docLightSlot 6 = Some 11
      \<and> isHTMLSlotElement (kind docLightSlot 11)
      \<and> assignedElements docLightSlot 11 = []
      \<and> parentNode docLightSlot 11 = Some 1
      \<and> \<not> isShadowRoot (kind docLightSlot 1) \<and> isElement (kind docLightSlot 1)"
    by (simp add: underScene_def parentElement_def docLightSlot_def doc_defs)
  have assigned: "p_distributedParent initial 5 = None \<and> p_shadowRootParent initial 5 = None
      \<and> parentNode docSlotted 5 = Some 1 \<and> isHTMLElement (kind docSlotted 1)
      \<and> \<not> isHTMLSlotElement (kind docSlotted 1) \<and> hasShadow docSlotted 1
      \<and> assignedSlot docSlotted 5 = Some 11
      \<and> parentNode docSlotted 11 = Some 21 \<and> isShadowRoot (kind docSlotted 21)
      \<and> host docSlotted 21 = 1"
    by (simp add: docSlotted_def doc_defs)
  show ?thesis
    using scene slotted moved content assigned
      composedParent_resolution [where e = docInScene and n = 5 and s = initial and sc = 30]
      composedParent_resolution [where e = docSlotted and n = 5 and d = 1
          and s = "fst (handleDistributedChildren docBefore 1 11 initial)"]
      composedParent_resolution [where e = docMoved and n = 5 and r = 3
          and s = "run slotReleaseThenRoot initial"]
      composedParent_resolution [where e = docLightSlot and n = 6 and s = initial
          and p = 11 and b = 1]
      composedParent_resolution [where e = docSlotted and n = 5 and s = initial
          and p = 1 and sl = 11 and b = 21]
    by simp
qed

subsection \<open>Attaching a shadow root\<close>

text \<open>
  C10. On an element that is not a scene, \<open>attachShadow\<close> records the root in
  \<open>__shadowRoot\<close>, registers the observer of the root with the fourth argument \<open>true\<close>, sets the
  possibly-distributed flag of every child that is a tree node and calls
  \<open>childUncomposedCallback(child, 'actual')\<close> for each of them at once, in the order of the
  children; nothing is queued. On a scene it returns the root and leaves the store as it
  was, so that \<open>_composedChildren\<close> of the scene is still its distributed children followed
  by its own tree-node children.
\<close>

theorem attachShadow_uncomposes_children:
  "(\<not> isSceneProp e this \<longrightarrow>
      snd (attachShadow e this (Inr root) s) = Inr root \<and>
      p_shadowRoot (fst (attachShadow e this (Inr root) s)) this = Some root \<and>
      observers (fst (attachShadow e this (Inr root) s)) = observers s @ [(root, this, True)] \<and>
      (\<forall>c \<in> set (children e this). isTreeNode (kind e c) \<longrightarrow>
          p_isPossiblyDistributedToShadowRoot (fst (attachShadow e this (Inr root) s)) c) \<and>
      fired (fst (attachShadow e this (Inr root) s)) =
        fired s @ (if hasChildUncomposedCallback e this
                   then map (\<lambda>c. ChildUncomposed this c Actual)
                          (filter (\<lambda>c. isTreeNode (kind e c)) (children e this))
                   else []) \<and>
      whenDefinedQueue (fst (attachShadow e this (Inr root) s)) = whenDefinedQueue s)
   \<and> (isSceneProp e this \<longrightarrow>
      attachShadow e this (Inr root) s = (s, Inr root) \<and>
      composedChildren e (fst (attachShadow e this (Inr root) s)) this =
        (case p_distributedChildren s this of None \<Rightarrow> [] | Some dc \<Rightarrow> dc)
        @ filter (\<lambda>n. isTreeNode (kind e n)) (children e this))"
  by (simp add: attachShadow_def uncomposeChildren_fired uncomposeChildren_flag Let_def
      composedChildren_def)

theorem attachShadow_uncomposes_children_witness:
  "\<not> isSceneProp docSlotted 1
   \<and> 5 \<in> set (children docSlotted 1) \<and> isTreeNode (kind docSlotted 5)
   \<and> p_shadowRoot (fst (attachShadow docSlotted 1 (Inr 21) initial)) 1 = Some 21
   \<and> p_isPossiblyDistributedToShadowRoot (fst (attachShadow docSlotted 1 (Inr 21) initial)) 5
   \<and> fired (fst (attachShadow docSlotted 1 (Inr 21) initial)) = [ChildUncomposed 1 5 Actual]
   \<and> isSceneProp docInScene 30
   \<and> attachShadow docInScene 30 (Inr 21) initial = (initial, Inr 21)
   \<and> composedChildren docInScene (fst (attachShadow docInScene 30 (Inr 21) initial)) 30 = [5]"
  using attachShadow_uncomposes_children [of docSlotted 1 21 initial]
        attachShadow_uncomposes_children [of docInScene 30 21 initial]
  by (simp add: docSlotted_def docInScene_def composedChildren_def model_defs doc_defs)

subsection \<open>Which life cycle calls a step makes\<close>

lemma grows_refl [simp]: "grows F Q s s"
  by (simp add: grows_def)

















subsection \<open>Upgrade of the child\<close>


subsection \<open>Connecting a child\<close>



subsection \<open>Moving an element from one slot to another\<close>

lemmas reslot_defs =
  settle_def gainThenLose_def docBefore_def docAfter_def docBeforeTwo_def docAfterTwo_def
  anyDelivery_def

text \<open>
  When the slot that loses \<open>5\<close> is handled first, the calls are the ones expected: composed
  on \<open>1\<close> at the start, then uncomposed on \<open>1\<close>, then composed on \<open>2\<close>, and the pointers agree
  with the sets.
\<close>

lemma reslot_lose_first:
  "fired (run (settle docBefore @ [(docAfter, SlotChange 1 11), (docAfter, SlotChange 2 12)]) initial)
     = [ChildComposed 1 5 Slot, ChildUncomposed 1 5 Slot, ChildComposed 2 5 Slot]
   \<and> p_distributedParent
        (run (settle docBefore @ [(docAfter, SlotChange 1 11), (docAfter, SlotChange 2 12)]) initial) 5
       = Some 2
   \<and> p_distributedChildren
        (run (settle docBefore @ [(docAfter, SlotChange 1 11), (docAfter, SlotChange 2 12)]) initial) 2
       = Some [5]"
  by (simp add: reslot_defs model_defs doc_defs)

text \<open>
  C3. The claim: when the assignment of \<open>X\<close> moves from a slot of \<open>P1\<close> to a slot of \<open>P2\<close>,
  \<open>childUncomposedCallback(X, 'slot')\<close> is called exactly once on \<open>P1\<close> and
  \<open>childComposedCallback(X, 'slot')\<close> exactly once on \<open>P2\<close>. Here \<open>5\<close> moves from slot \<open>11\<close> of
  \<open>1\<close> to slot \<open>12\<close> of \<open>2\<close> and the \<open>slotchange\<close> of \<open>12\<close> is handled first. Handling it takes
  \<open>5\<close> out of the set of \<open>1\<close>, which becomes \<open>undefined\<close>. Handling the \<open>slotchange\<close> of \<open>11\<close>
  then clears the pointer of \<open>5\<close> and calls \<open>delete\<close> on \<open>undefined\<close>: a \<open>TypeError\<close>, and the
  uncomposed call on \<open>1\<close> is never made.
\<close>

theorem reslot_gain_first_throws:
  "admissible anyDelivery (settle docBefore @ gainThenLose docAfter) initial
   \<and> p_distributedChildren (run (settle docBefore @ [(docAfter, SlotChange 2 12)]) initial) 1 = None
   \<and> snd (handleDistributedChildren docAfter 1 11
             (run (settle docBefore @ [(docAfter, SlotChange 2 12)]) initial)) = Some TypeError
   \<and> fired (run (settle docBefore @ gainThenLose docAfter) initial)
       = [ChildComposed 1 5 Slot, ChildComposed 2 5 Slot]
   \<and> count_list (fired (run (settle docBefore @ gainThenLose docAfter) initial))
         (ChildUncomposed 1 5 Slot) = 0"
  by (simp add: reslot_defs model_defs doc_defs)

text \<open>
  C5. The claim: in every reachable store, \<open>X\<close> is in the set of distributed children of
  \<open>B\<close> exactly when \<open>X.__distributedParent\<close> is \<open>B\<close>. Here \<open>5\<close> and \<open>6\<close> are assigned to slot \<open>11\<close>
  of \<open>1\<close>, then \<open>5\<close> moves to slot \<open>12\<close> of \<open>2\<close>, and the \<open>slotchange\<close> of \<open>12\<close> is handled first:
  \<open>5\<close> joins the set of \<open>2\<close> and points to \<open>2\<close>. The second loop of the handler of slot \<open>11\<close>
  then sets the pointer of \<open>5\<close> to null without looking at where it points. No exception
  occurs, and \<open>5\<close> stays in the set of \<open>2\<close> with a null pointer.
\<close>

theorem reslot_gain_first_breaks_edge:
  "reachable anyDelivery (run (settle docBeforeTwo @ gainThenLose docAfterTwo) initial)
   \<and> p_distributedChildren (run (settle docBeforeTwo @ gainThenLose docAfterTwo) initial) 2 = Some [5]
   \<and> p_distributedParent (run (settle docBeforeTwo @ gainThenLose docAfterTwo) initial) 5 = None
   \<and> \<not> edgeConsistentAt (run (settle docBeforeTwo @ gainThenLose docAfterTwo) initial) 2 5"
proof -
  have "admissible anyDelivery (settle docBeforeTwo @ gainThenLose docAfterTwo) initial"
    by (simp add: reslot_defs model_defs doc_defs)
  then have "reachable anyDelivery (run (settle docBeforeTwo @ gainThenLose docAfterTwo) initial)"
    by (rule reachable_run [OF reachable.start])
  moreover have
    "p_distributedChildren (run (settle docBeforeTwo @ gainThenLose docAfterTwo) initial) 2 = Some [5]
     \<and> p_distributedParent (run (settle docBeforeTwo @ gainThenLose docAfterTwo) initial) 5 = None"
    by (simp add: reslot_defs model_defs doc_defs)
  ultimately show ?thesis by (simp add: edgeConsistentAt_def)
qed

end
